theory Spec2Isabelle
  imports Main
begin

section \<open>The parsed document\<close>

text \<open>
  \<^verbatim>\<open>BeautifulSoup(html, "html.parser")\<close> turns markup text into a tree of tags and
  strings. The tree builder is a library, so the functions below take it as the parameter
  \<open>html_parser\<close>, from the text to the top-level nodes, and work on the tree.

  An element carries its tag name, the tokens of its \<open>class\<close> attribute (which the
  library stores as a list), its single-valued attributes as a dictionary (an association
  list read with \<open>map_of\<close>) and its children in document order. A \<open>Text\<close> node is a
  string that \<open>get_text\<close> yields; comments and the like, which \<open>get_text\<close> skips and
  no selector matches, are not part of the tree.
\<close>

datatype node =
    Text string
  | Element string "string list" "(string \<times> string) list" "node list"

fun el_name :: "node \<Rightarrow> string" where
  "el_name (Text s) = []"
| "el_name (Element n cs as ch) = n"

fun el_classes :: "node \<Rightarrow> string list" where
  "el_classes (Text s) = []"
| "el_classes (Element n cs as ch) = cs"

fun is_element :: "node \<Rightarrow> bool" where
  "is_element (Text s) = False"
| "is_element (Element n cs as ch) = True"

text \<open>\<^verbatim>\<open>tag.get(key)\<close>: the attribute's value, or \<open>None\<close> when the tag has no such attribute.\<close>

fun get_attr :: "node \<Rightarrow> string \<Rightarrow> string option" where
  "get_attr (Text s) k = None"
| "get_attr (Element n cs as ch) k = map_of as k"

text \<open>
  The descendant elements of a node in document order (pre-order), each paired with its
  parent. The node itself is not among them.
\<close>

fun descendants :: "node \<Rightarrow> (node \<times> node) list"
  and descendants_of :: "node \<Rightarrow> node list \<Rightarrow> (node \<times> node) list" where
  "descendants (Text s) = []"
| "descendants (Element n cs as ch) = descendants_of (Element n cs as ch) ch"
| "descendants_of p [] = []"
| "descendants_of p (c # rest) =
     (if is_element c then [(p, c)] else []) @ descendants c @ descendants_of p rest"

text \<open>The strings below a node, in document order.\<close>

fun strings :: "node \<Rightarrow> string list"
  and strings_of :: "node list \<Rightarrow> string list" where
  "strings (Text s) = [s]"
| "strings (Element n cs as ch) = strings_of ch"
| "strings_of [] = []"
| "strings_of (c # rest) = strings c @ strings_of rest"

subsection \<open>Strings\<close>

text \<open>
  \<^verbatim>\<open>str.strip()\<close> removes leading and trailing whitespace. Characters are code points
  below 256; of these Python counts as whitespace 9 to 13, 28 to 32, 133 and 160.
\<close>

definition py_isspace :: "char \<Rightarrow> bool" where
  "py_isspace c =
     (let n = (of_char c :: nat)
      in (9 \<le> n \<and> n \<le> 13) \<or> (28 \<le> n \<and> n \<le> 32) \<or> n = 133 \<or> n = 160)"

definition strip :: "string \<Rightarrow> string" where
  "strip s = rev (dropWhile py_isspace (rev (dropWhile py_isspace s)))"

text \<open>\<^verbatim>\<open>sep.join(parts)\<close>\<close>

fun join :: "string \<Rightarrow> string list \<Rightarrow> string" where
  "join sep [] = []"
| "join sep [x] = x"
| "join sep (x # y # ys) = x @ sep @ join sep (y # ys)"

text \<open>\<^verbatim>\<open>tag.text\<close>: all strings below the tag, concatenated.\<close>

definition text_of :: "node \<Rightarrow> string" where
  "text_of e = concat (strings e)"

text \<open>
  \<^verbatim>\<open>tag.get_text(separator=sep, strip=True)\<close>: every string below the tag is stripped,
  the empty ones are dropped, the rest are joined with the separator.
\<close>

definition get_text :: "string \<Rightarrow> node \<Rightarrow> string" where
  "get_text sep e = join sep (filter (\<lambda>s. s \<noteq> []) (map strip (strings e)))"

subsection \<open>Selectors\<close>

text \<open>
  The four selectors of the program are a compound selector (an optional tag name and a
  class: \<^verbatim>\<open>.athing\<close>, \<^verbatim>\<open>tr.comtr\<close>, \<^verbatim>\<open>.hnuser\<close>, \<^verbatim>\<open>.commtext\<close>) or a
  compound selector under the child combinator (\<^verbatim>\<open>.titleline > a\<close>).
\<close>

datatype compound = Compound "string option" "string option"

datatype selector = Sel compound | Child compound compound

fun matches_compound :: "compound \<Rightarrow> node \<Rightarrow> bool" where
  "matches_compound (Compound t c) e =
     (is_element e
      \<and> (case t of None \<Rightarrow> True | Some n \<Rightarrow> el_name e = n)
      \<and> (case c of None \<Rightarrow> True | Some k \<Rightarrow> k \<in> set (el_classes e)))"

fun matches :: "selector \<Rightarrow> node \<times> node \<Rightarrow> bool" where
  "matches (Sel c) (p, e) = matches_compound c e"
| "matches (Child pc c) (p, e) = (matches_compound c e \<and> matches_compound pc p)"

text \<open>\<^verbatim>\<open>tag.select(sel)\<close>: the matching descendants in document order.\<close>

definition select :: "selector \<Rightarrow> node \<Rightarrow> node list" where
  "select sel root = map snd (filter (matches sel) (descendants root))"

text \<open>\<^verbatim>\<open>tag.select_one(sel)\<close>: the first matching descendant, or \<open>None\<close>.\<close>

definition select_one :: "selector \<Rightarrow> node \<Rightarrow> node option" where
  "select_one sel root = (case select sel root of [] \<Rightarrow> None | e # es \<Rightarrow> Some e)"

definition BeautifulSoup :: "(string \<Rightarrow> node list) \<Rightarrow> string \<Rightarrow> node" where
  "BeautifulSoup html_parser html = Element ''[document]'' [] [] (html_parser html)"

section \<open>Records and errors\<close>

record comment =
  comment_user :: string
  comment_text :: string

text \<open>
  A story is the dictionary with the keys \<open>id\<close>, \<open>title\<close> and \<open>link\<close>; the key
  \<open>comments\<close> is absent (\<open>None\<close>) until the enricher assigns it.
\<close>

record story =
  story_id :: string
  story_title :: string
  story_link :: string
  story_comments :: "comment list option"

text \<open>
  The errors that can be raised: \<open>KeyError\<close> by subscripting a tag with an attribute it
  does not have, \<open>ClientError\<close> by a request (with the transport's message), and the
  exception group in which a task group raises the errors it collected.
\<close>

datatype py_error =
    KeyError string
  | ClientError string
  | ExceptionGroup "py_error list"

section \<open>The extractors\<close>

definition athing :: selector where
  "athing = Sel (Compound None (Some ''athing''))"

definition titleline_a :: selector where
  "titleline_a = Child (Compound None (Some ''titleline'')) (Compound (Some ''a'') None)"

definition tr_comtr :: selector where
  "tr_comtr = Sel (Compound (Some ''tr'') (Some ''comtr''))"

definition hnuser :: selector where
  "hnuser = Sel (Compound None (Some ''hnuser''))"

definition commtext :: selector where
  "commtext = Sel (Compound None (Some ''commtext''))"

text \<open>
  \<^verbatim>\<open>tag[key]\<close> raises \<open>KeyError\<close> when the tag has no such attribute.
\<close>

definition getitem :: "node \<Rightarrow> string \<Rightarrow> py_error + string" where
  "getitem e k = (case get_attr e k of None \<Rightarrow> Inl (KeyError k) | Some v \<Rightarrow> Inr v)"

text \<open>
  The loop of \<open>parse_stories\<close> over the selected rows, with the list \<open>stories\<close> built so
  far. A tag is always true; the identifier is true when it is present and not empty.
\<close>

fun parse_stories_loop :: "node list \<Rightarrow> story list \<Rightarrow> py_error + story list" where
  "parse_stories_loop [] stories = Inr stories"
| "parse_stories_loop (item # items) stories =
     (let title_tag = select_one titleline_a item;
          sid = get_attr item ''id''
      in if title_tag \<noteq> None \<and> sid \<noteq> None \<and> sid \<noteq> Some [] then
           (let title = strip (text_of (the title_tag))
            in case getitem (the title_tag) ''href'' of
                 Inl err \<Rightarrow> Inl err
               | Inr href \<Rightarrow>
                   parse_stories_loop items
                     (stories @ [\<lparr>story_id = the sid, story_title = title,
                                  story_link = strip href, story_comments = None\<rparr>]))
         else parse_stories_loop items stories)"

definition parse_stories :: "(string \<Rightarrow> node list) \<Rightarrow> string \<Rightarrow> py_error + story list" where
  "parse_stories html_parser html =
     parse_stories_loop (select athing (BeautifulSoup html_parser html)) []"

text \<open>The loop of \<open>parse_comments\<close>; nothing in it can raise.\<close>

fun parse_comments_loop :: "node list \<Rightarrow> comment list \<Rightarrow> comment list" where
  "parse_comments_loop [] comments = comments"
| "parse_comments_loop (row # rows) comments =
     (let user_tag = select_one hnuser row;
          comment_tag = select_one commtext row
      in if user_tag \<noteq> None \<and> comment_tag \<noteq> None then
           parse_comments_loop rows
             (comments @ [\<lparr>comment_user = strip (text_of (the user_tag)),
                           comment_text = get_text '' '' (the comment_tag)\<rparr>])
         else parse_comments_loop rows comments)"

definition parse_comments :: "(string \<Rightarrow> node list) \<Rightarrow> string \<Rightarrow> comment list" where
  "parse_comments html_parser html =
     parse_comments_loop (select tr_comtr (BeautifulSoup html_parser html)) []"

section \<open>Fetching and enriching\<close>

text \<open>
  The network is a function from a URL to the body of the response or to the error the
  request raises (a timeout among them): every URL has one answer during a run.
\<close>

type_synonym network = "string \<Rightarrow> py_error + string"

definition fetch :: "network \<Rightarrow> string \<Rightarrow> py_error + string" where
  "fetch net url = net url"

text \<open>\<^verbatim>\<open>str(n)\<close> of a natural number, for \<^verbatim>\<open>BASE_URL.format(page)\<close>.\<close>

fun str_nat :: "nat \<Rightarrow> string" where
  "str_nat n =
     (if n < 10 then [char_of (48 + n)]
      else str_nat (n div 10) @ [char_of (48 + n mod 10)])"

declare str_nat.simps [simp del]

definition BASE_URL :: "nat \<Rightarrow> string" where
  "BASE_URL page = ''https://news.ycombinator.com/news?p='' @ str_nat page"

definition ITEM_URL :: "string \<Rightarrow> string" where
  "ITEM_URL sid = ''https://news.ycombinator.com/item?id='' @ sid"

definition fetch_story_with_comments ::
  "(string \<Rightarrow> node list) \<Rightarrow> network \<Rightarrow> story \<Rightarrow> py_error + story" where
  "fetch_story_with_comments html_parser net story =
     (case fetch net (ITEM_URL (story_id story)) of
        Inl err \<Rightarrow> Inl err
      | Inr comment_html \<Rightarrow>
          Inr (story\<lparr>story_comments := Some (parse_comments html_parser comment_html)\<rparr>))"

section \<open>The worker\<close>

text \<open>
  Leaving \<^verbatim>\<open>async with asyncio.TaskGroup()\<close> waits for the tasks created in it. When
  all of them return, the block is left normally, with every story updated by its task.
  When some of them raise, the group cancels the others and raises an exception group.
  \<open>errors\<close> lists the errors of all the tasks that fail; at run time the group holds
  those of them that were raised before the cancellation reached their task.
\<close>

definition errors :: "(py_error + 'a) list \<Rightarrow> py_error list" where
  "errors results = [e. Inl e \<leftarrow> results]"

definition returned :: "(py_error + 'a) list \<Rightarrow> 'a list" where
  "returned results = [x. Inr x \<leftarrow> results]"

definition task_group :: "(py_error + 'a) list \<Rightarrow> py_error + 'a list" where
  "task_group results =
     (if errors results = [] then Inr (returned results)
      else Inl (ExceptionGroup (errors results)))"

text \<open>How the coroutine \<open>worker\<close> ends: by one of its two \<open>break\<close>s, or by an error.\<close>

datatype exit = QueueEmpty | NoStories | Raised py_error

text \<open>
  The body of the loop once a page is claimed: \<open>Inl\<close> when it leaves the loop, \<open>Inr\<close>
  with the stories to append when it goes on. An error raised inside the task group's
  block leaves it wrapped in an exception group as well.
\<close>

definition worker_page ::
  "(string \<Rightarrow> node list) \<Rightarrow> network \<Rightarrow> string \<Rightarrow> exit + story list" where
  "worker_page html_parser net page =
     (case fetch net page of
        Inl err \<Rightarrow> Inl (Raised (ExceptionGroup [err]))
      | Inr html \<Rightarrow>
          (case parse_stories html_parser html of
             Inl err \<Rightarrow> Inl (Raised (ExceptionGroup [err]))
           | Inr stories \<Rightarrow>
               if stories = [] then Inl NoStories
               else (case task_group (map (fetch_story_with_comments html_parser net) stories) of
                       Inl err \<Rightarrow> Inl (Raised err)
                     | Inr enriched \<Rightarrow> Inr enriched)))"

text \<open>
  The work queue is the list of its entries, oldest first; \<^verbatim>\<open>queue.get(block=False)\<close>
  takes the head, or raises \<open>Empty\<close>, which the worker catches. The result is the exit
  together with the queue and the result collection as the worker leaves them.
\<close>

fun worker ::
  "(string \<Rightarrow> node list) \<Rightarrow> network \<Rightarrow> string list \<Rightarrow> story list
     \<Rightarrow> exit \<times> string list \<times> story list" where
  "worker html_parser net [] all_stories = (QueueEmpty, [], all_stories)"
| "worker html_parser net (page # queue) all_stories =
     (case worker_page html_parser net page of
        Inl ex \<Rightarrow> (ex, queue, all_stories)
      | Inr stories \<Rightarrow> worker html_parser net queue (all_stories @ stories))"

section \<open>The orchestrator\<close>

definition main_queue :: "string list" where
  "main_queue = map BASE_URL [1..<101]"

text \<open>
  Single-worker mode (\<open>multithreaded = False\<close>): the lines printed, and the error that
  ends the run if there is one. \<open>rate n\<close> stands for the text of
  \<^verbatim>\<open>f"{n / (end_time - start_time):.0f}"\<close>, which depends on the clock.
\<close>

definition main_single ::
  "(string \<Rightarrow> node list) \<Rightarrow> network \<Rightarrow> (nat \<Rightarrow> string) \<Rightarrow> string list \<times> py_error option" where
  "main_single html_parser net rate =
     (case worker html_parser net main_queue [] of
        (Raised err, queue, all_stories) \<Rightarrow>
          ([''Using single thread for fetching stories...''], Some err)
      | (ex, queue, all_stories) \<Rightarrow>
          ([''Using single thread for fetching stories...'',
            ''Scraping speed: '' @ rate (length all_stories) @ '' stories/sec''], None))"

text \<open>
  Pooled mode (\<open>multithreaded = True\<close>): eight workers share the queue and the result
  collection. A worker is about to claim an entry, holds a claimed page, or has ended.
  Taking an entry and extending the result collection are single steps of a worker; the
  steps of the workers interleave in any order.
\<close>

datatype phase = Claiming | Holding string | Ended exit

record pool =
  pool_queue :: "string list"
  pool_stories :: "story list"
  pool_workers :: "phase list"

inductive pool_step :: "(string \<Rightarrow> node list) \<Rightarrow> network \<Rightarrow> pool \<Rightarrow> pool \<Rightarrow> bool"
  for html_parser :: "string \<Rightarrow> node list" and net :: network where
  claim_empty:
    "i < length (pool_workers c) \<Longrightarrow> pool_workers c ! i = Claiming \<Longrightarrow> pool_queue c = [] \<Longrightarrow>
     pool_step html_parser net c (c\<lparr>pool_workers := (pool_workers c)[i := Ended QueueEmpty]\<rparr>)"
| claim:
    "i < length (pool_workers c) \<Longrightarrow> pool_workers c ! i = Claiming \<Longrightarrow>
     pool_queue c = page # queue \<Longrightarrow>
     pool_step html_parser net c
       (c\<lparr>pool_queue := queue, pool_workers := (pool_workers c)[i := Holding page]\<rparr>)"
| leave:
    "i < length (pool_workers c) \<Longrightarrow> pool_workers c ! i = Holding page \<Longrightarrow>
     worker_page html_parser net page = Inl ex \<Longrightarrow>
     pool_step html_parser net c (c\<lparr>pool_workers := (pool_workers c)[i := Ended ex]\<rparr>)"
| extend:
    "i < length (pool_workers c) \<Longrightarrow> pool_workers c ! i = Holding page \<Longrightarrow>
     worker_page html_parser net page = Inr stories \<Longrightarrow>
     pool_step html_parser net c
       (c\<lparr>pool_stories := pool_stories c @ stories,
          pool_workers := (pool_workers c)[i := Claiming]\<rparr>)"

definition pool_init :: pool where
  "pool_init = \<lparr>pool_queue = main_queue, pool_stories = [], pool_workers = replicate 8 Claiming\<rparr>"

section \<open>Notions of the specification\<close>

text \<open>A row has an element for a selector when one of its descendants matches it.\<close>

definition has_element :: "selector \<Rightarrow> node \<Rightarrow> bool" where
  "has_element sel row = (\<exists>pe \<in> set (descendants row). matches sel pe)"

text \<open>A row has a row identifier when its \<open>id\<close> attribute is present and not empty.\<close>

definition has_row_id :: "node \<Rightarrow> bool" where
  "has_row_id row = (case get_attr row ''id'' of None \<Rightarrow> False | Some v \<Rightarrow> v \<noteq> [])"

text \<open>A well-formed listing row has both a title anchor and a row identifier.\<close>

definition well_formed_story_row :: "node \<Rightarrow> bool" where
  "well_formed_story_row row = (has_element titleline_a row \<and> has_row_id row)"

text \<open>A well-formed comment row has both a username element and a comment-body element.\<close>

definition well_formed_comment_row :: "node \<Rightarrow> bool" where
  "well_formed_comment_row row = (has_element hnuser row \<and> has_element commtext row)"

text \<open>The title anchor of the row, when there is one, carries an \<open>href\<close>.\<close>

definition anchor_has_href :: "node \<Rightarrow> bool" where
  "anchor_has_href row =
     (case select_one titleline_a row of None \<Rightarrow> True | Some t \<Rightarrow> get_attr t ''href'' \<noteq> None)"

text \<open>The record read off a well-formed row: its first matching elements, trimmed.\<close>

definition story_of_row :: "node \<Rightarrow> story" where
  "story_of_row row =
     \<lparr>story_id = the (get_attr row ''id''),
      story_title = strip (text_of (the (select_one titleline_a row))),
      story_link = strip (the (get_attr (the (select_one titleline_a row)) ''href'')),
      story_comments = None\<rparr>"

definition comment_of_row :: "node \<Rightarrow> comment" where
  "comment_of_row row =
     \<lparr>comment_user = strip (text_of (the (select_one hnuser row))),
      comment_text = get_text '' '' (the (select_one commtext row))\<rparr>"

text \<open>A page on which the loop breaks: it is fetched and no story is extracted from it.\<close>

definition yields_no_stories :: "(string \<Rightarrow> node list) \<Rightarrow> network \<Rightarrow> string \<Rightarrow> bool" where
  "yields_no_stories html_parser net page =
     (case fetch net page of
        Inl err \<Rightarrow> False
      | Inr html \<Rightarrow> parse_stories html_parser html = Inr [])"

text \<open>
  A page that raises nothing: its fetch returns, the extractor returns, and the fetch of
  the item page of every extracted story returns.
\<close>

definition page_raises_nothing :: "(string \<Rightarrow> node list) \<Rightarrow> network \<Rightarrow> string \<Rightarrow> bool" where
  "page_raises_nothing html_parser net page =
     (case fetch net page of
        Inl err \<Rightarrow> False
      | Inr html \<Rightarrow>
          (case parse_stories html_parser html of
             Inl err \<Rightarrow> False
           | Inr stories \<Rightarrow>
               (\<forall>s \<in> set stories.
                  case fetch net (ITEM_URL (story_id s)) of Inl err \<Rightarrow> False | Inr d \<Rightarrow> True)))"

text \<open>Reading a decimal numeral back: the inverse of \<open>str_nat\<close>.\<close>

definition nat_of_str :: "string \<Rightarrow> nat" where
  "nat_of_str s = foldl (\<lambda>a c. 10 * a + (of_char c - 48)) 0 s"

text \<open>The exits by \<open>break\<close>, as opposed to an error leaving the coroutine.\<close>

fun is_break :: "exit \<Rightarrow> bool" where
  "is_break QueueEmpty = True"
| "is_break NoStories = True"
| "is_break (Raised err) = False"

text \<open>Any number of steps of the pool.\<close>

inductive pool_steps :: "(string \<Rightarrow> node list) \<Rightarrow> network \<Rightarrow> pool \<Rightarrow> pool \<Rightarrow> bool"
  for html_parser :: "string \<Rightarrow> node list" and net :: network where
  refl: "pool_steps html_parser net c c"
| step: "pool_steps html_parser net c c' \<Longrightarrow> pool_step html_parser net c' c'' \<Longrightarrow>
         pool_steps html_parser net c c''"

section \<open>Example pages\<close>

text \<open>
  Row A of the scenario, a row B without a title anchor, and a row whose title anchor has
  no \<open>href\<close>.
\<close>

definition row_a :: node where
  "row_a = Element ''tr'' [''athing''] [(''id'', ''1'')]
     [Element ''td'' [] []
       [Element ''span'' [''titleline''] []
         [Element ''a'' [] [(''href'', ''http://x'')] [Text ''Hello'']]]]"

definition row_b :: node where
  "row_b = Element ''tr'' [''athing''] [(''id'', ''2'')]
     [Element ''td'' [] [] [Text ''no title'']]"

definition row_no_href :: node where
  "row_no_href = Element ''tr'' [''athing''] [(''id'', ''3'')]
     [Element ''td'' [] []
       [Element ''span'' [''titleline''] [] [Element ''a'' [] [] [Text ''Hello'']]]]"

definition story_a :: story where
  "story_a = \<lparr>story_id = ''1'', story_title = ''Hello'', story_link = ''http://x'',
               story_comments = None\<rparr>"

definition comment_rows :: "node list" where
  "comment_rows =
     [Element ''tr'' [''comtr''] []
        [Element ''td'' [] []
          [Element ''a'' [''hnuser''] [] [Text ''alice''],
           Element ''div'' [''commtext''] []
             [Text ''first '', Element ''i'' [] [] [Text ''nested''], Text '' reply'']]],
      Element ''tr'' [''comtr''] []
        [Element ''td'' [] [] [Element ''a'' [''hnuser''] [] [Text ''bob'']]],
      Element ''tr'' [''comtr''] []
        [Element ''td'' [] []
          [Element ''a'' [''hnuser''] [] [Text '' carol ''],
           Element ''span'' [''commtext''] [] [Text ''third'']]]]"

text \<open>
  The markup of four pages and the trees the parser builds for them: a listing page with
  rows A and B, one with row A and the row without \<open>href\<close>, one with the row without
  \<open>href\<close> alone, and an item page with three comment rows, the second without a body.
  Any other text, the empty one among them, stands for a page without elements.
\<close>

definition listing_ab :: string where
  "listing_ab = ''<table><tr class=athing id=1><td><span class=titleline>'' @
     ''<a href=http://x>Hello</a></span></td></tr>'' @
     ''<tr class=athing id=2><td>no title</td></tr></table>''"

definition listing_a_no_href :: string where
  "listing_a_no_href = ''<table><tr class=athing id=1><td><span class=titleline>'' @
     ''<a href=http://x>Hello</a></span></td></tr>'' @
     ''<tr class=athing id=3><td><span class=titleline><a>Hello</a></span></td></tr></table>''"

definition listing_no_href :: string where
  "listing_no_href =
     ''<table><tr class=athing id=3><td><span class=titleline><a>Hello</a></span></td></tr></table>''"

definition item_page :: string where
  "item_page = ''<table><tr class=comtr><td><a class=hnuser>alice</a>'' @
     ''<div class=commtext>first <i>nested</i> reply</div></td></tr>'' @
     ''<tr class=comtr><td><a class=hnuser>bob</a></td></tr>'' @
     ''<tr class=comtr><td><a class=hnuser> carol </a>'' @
     ''<span class=commtext>third</span></td></tr></table>''"

definition example_parser :: "string \<Rightarrow> node list" where
  "example_parser html =
     (if html = listing_ab then [Element ''table'' [] [] [row_a, row_b]]
      else if html = listing_a_no_href then [Element ''table'' [] [] [row_a, row_no_href]]
      else if html = listing_no_href then [Element ''table'' [] [] [row_no_href]]
      else if html = item_page then [Element ''table'' [] [] comment_rows]
      else [])"

text \<open>
  A network on which page 1 is the listing with rows A and B, page 2 a page without rows,
  page 3 the listing with the row without \<open>href\<close>, the item 1 the item page, and every
  other request times out.
\<close>

definition example_net :: network where
  "example_net url =
     (if url = BASE_URL 1 then Inr listing_ab
      else if url = BASE_URL 2 then Inr []
      else if url = BASE_URL 3 then Inr listing_a_no_href
      else if url = ITEM_URL ''1'' then Inr item_page
      else Inl (ClientError ''timeout''))"

text \<open>A network on which only page 1 answers, with the listing of rows A and B.\<close>

definition listing_net :: network where
  "listing_net url =
     (if url = BASE_URL 1 then Inr listing_ab else Inl (ClientError ''timeout''))"

text \<open>The comments of the item page, and the story of row A with them attached.\<close>

definition item_comments :: "comment list" where
  "item_comments =
     [\<lparr>comment_user = ''alice'', comment_text = ''first nested reply''\<rparr>,
      \<lparr>comment_user = ''carol'', comment_text = ''third''\<rparr>]"

definition enriched_a :: story where
  "enriched_a = story_a\<lparr>story_comments := Some item_comments\<rparr>"

text \<open>
  A pool of two workers on the pages 1 and 2: at the start, after the first worker has
  claimed page 1, after the second has claimed page 2 as well, and after the first worker
  has appended the stories of page 1 instead.
\<close>

definition pool_0 :: pool where
  "pool_0 = \<lparr>pool_queue = [BASE_URL 1, BASE_URL 2], pool_stories = [],
             pool_workers = [Claiming, Claiming]\<rparr>"

definition pool_1 :: pool where
  "pool_1 = \<lparr>pool_queue = [BASE_URL 2], pool_stories = [],
             pool_workers = [Holding (BASE_URL 1), Claiming]\<rparr>"

definition pool_2 :: pool where
  "pool_2 = \<lparr>pool_queue = [], pool_stories = [],
             pool_workers = [Holding (BASE_URL 1), Holding (BASE_URL 2)]\<rparr>"

definition pool_3 :: pool where
  "pool_3 = \<lparr>pool_queue = [BASE_URL 2], pool_stories = [enriched_a],
             pool_workers = [Claiming, Claiming]\<rparr>"

text \<open>
  The pool of the orchestrator after its first worker has claimed page 1, and after that
  worker has appended the stories of the page.
\<close>

definition pool_4 :: pool where
  "pool_4 = \<lparr>pool_queue = tl main_queue, pool_stories = [],
             pool_workers = (replicate 8 Claiming)[0 := Holding (BASE_URL 1)]\<rparr>"

definition pool_5 :: pool where
  "pool_5 = \<lparr>pool_queue = tl main_queue, pool_stories = [enriched_a],
             pool_workers = replicate 8 Claiming\<rparr>"

text \<open>
  A pool of two workers on the pages 2 and 3: the first worker holds page 2, then has
  ended on it, and then the second worker has claimed page 3.
\<close>

definition pool_6 :: pool where
  "pool_6 = \<lparr>pool_queue = [BASE_URL 3], pool_stories = [],
             pool_workers = [Holding (BASE_URL 2), Claiming]\<rparr>"

definition pool_7 :: pool where
  "pool_7 = \<lparr>pool_queue = [BASE_URL 3], pool_stories = [],
             pool_workers = [Ended NoStories, Claiming]\<rparr>"

definition pool_8 :: pool where
  "pool_8 = \<lparr>pool_queue = [], pool_stories = [],
             pool_workers = [Ended NoStories, Holding (BASE_URL 3)]\<rparr>"

section \<open>Selection\<close>

lemma select_one_None_iff: "select_one sel row = None \<longleftrightarrow> \<not> has_element sel row"
proof -
  have "select_one sel row = None \<longleftrightarrow> filter (matches sel) (descendants row) = []"
    by (cases "filter (matches sel) (descendants row)") (simp_all add: select_one_def select_def)
  then show ?thesis
    by (simp add: filter_empty_conv has_element_def)
qed

lemma select_one_Some_iff: "(\<exists>t. select_one sel row = Some t) \<longleftrightarrow> has_element sel row"
  using select_one_None_iff [of sel row] by auto

lemma has_row_id_iff:
  "has_row_id row \<longleftrightarrow> get_attr row ''id'' \<noteq> None \<and> get_attr row ''id'' \<noteq> Some []"
  by (auto simp: has_row_id_def split: option.splits)

section \<open>The loops of the extractors\<close>

lemma parse_comments_loop_eq:
  "parse_comments_loop rows acc = acc @ map comment_of_row (filter well_formed_comment_row rows)"
  by (induction rows arbitrary: acc)
     (simp_all add: Let_def well_formed_comment_row_def comment_of_row_def select_one_None_iff)

lemma parse_stories_loop_skip:
  "\<not> well_formed_story_row row \<Longrightarrow>
   parse_stories_loop (row # rows) acc = parse_stories_loop rows acc"
  using select_one_None_iff [of titleline_a row]
  by (auto simp: Let_def well_formed_story_row_def has_row_id_iff)

lemma parse_stories_loop_href:
  "well_formed_story_row row \<Longrightarrow> anchor_has_href row \<Longrightarrow>
   parse_stories_loop (row # rows) acc = parse_stories_loop rows (acc @ [story_of_row row])"
proof -
  assume wf: "well_formed_story_row row" and href: "anchor_has_href row"
  from wf obtain t where t: "select_one titleline_a row = Some t"
    using select_one_Some_iff [of titleline_a row] by (auto simp: well_formed_story_row_def)
  with href obtain h where h: "get_attr t ''href'' = Some h"
    by (auto simp: anchor_has_href_def)
  from wf have "get_attr row ''id'' \<noteq> None \<and> get_attr row ''id'' \<noteq> Some []"
    by (simp add: well_formed_story_row_def has_row_id_iff)
  with t h show ?thesis
    by (simp add: Let_def getitem_def story_of_row_def)
qed

lemma parse_stories_loop_no_href:
  "well_formed_story_row row \<Longrightarrow> \<not> anchor_has_href row \<Longrightarrow>
   parse_stories_loop (row # rows) acc = Inl (KeyError ''href'')"
proof -
  assume wf: "well_formed_story_row row" and href: "\<not> anchor_has_href row"
  from wf obtain t where t: "select_one titleline_a row = Some t"
    using select_one_Some_iff [of titleline_a row] by (auto simp: well_formed_story_row_def)
  with href have h: "get_attr t ''href'' = None"
    by (auto simp: anchor_has_href_def)
  from wf have "get_attr row ''id'' \<noteq> None \<and> get_attr row ''id'' \<noteq> Some []"
    by (simp add: well_formed_story_row_def has_row_id_iff)
  with t h show ?thesis
    by (simp add: Let_def getitem_def)
qed

text \<open>
  Where the title anchor of every well-formed row carries an \<open>href\<close>, the loop returns
  the records of the well-formed rows in the order of the rows.
\<close>

lemma parse_stories_loop_eq:
  "\<forall>row \<in> set rows. well_formed_story_row row \<longrightarrow> anchor_has_href row \<Longrightarrow>
   parse_stories_loop rows acc = Inr (acc @ map story_of_row (filter well_formed_story_row rows))"
proof (induction rows arbitrary: acc)
  case Nil
  then show ?case by simp
next
  case (Cons row rows)
  then show ?case
    by (cases "well_formed_story_row row")
       (simp_all add: parse_stories_loop_skip parse_stories_loop_href del: parse_stories_loop.simps)
qed

text \<open>Where some well-formed row has a title anchor without \<open>href\<close>, the loop raises.\<close>

lemma parse_stories_loop_raises:
  "row \<in> set rows \<Longrightarrow> well_formed_story_row row \<Longrightarrow> \<not> anchor_has_href row \<Longrightarrow>
   parse_stories_loop rows acc = Inl (KeyError ''href'')"
proof (induction rows arbitrary: acc)
  case Nil
  then show ?case by simp
next
  case (Cons r rows)
  show ?case
  proof (cases "well_formed_story_row r")
    case False
    with Cons show ?thesis
      by (auto simp add: parse_stories_loop_skip simp del: parse_stories_loop.simps)
  next
    case True
    show ?thesis
    proof (cases "anchor_has_href r")
      case False
      with True show ?thesis by (rule parse_stories_loop_no_href)
    next
      case href: True
      with Cons.prems have "row \<in> set rows" by auto
      with Cons True href show ?thesis
        by (simp add: parse_stories_loop_href del: parse_stories_loop.simps)
    qed
  qed
qed

lemmas example_defs =
  example_parser_def listing_ab_def listing_a_no_href_def listing_no_href_def item_page_def
  row_a_def row_b_def row_no_href_def comment_rows_def story_a_def

lemmas selector_defs =
  BeautifulSoup_def select_def select_one_def athing_def titleline_a_def tr_comtr_def
  hnuser_def commtext_def

lemmas text_defs = strip_def text_of_def get_text_def py_isspace_def

section \<open>The story extractor\<close>

text \<open>
  On a page where the title anchor of every well-formed row carries an \<open>href\<close>,
  \<open>parse_stories\<close> returns the records of the well-formed rows, in document order.
\<close>

lemma parse_stories_eq:
  "\<forall>row \<in> set (select athing (BeautifulSoup html_parser html)).
     well_formed_story_row row \<longrightarrow> anchor_has_href row \<Longrightarrow>
   parse_stories html_parser html =
     Inr (map story_of_row
           (filter well_formed_story_row (select athing (BeautifulSoup html_parser html))))"
  by (simp add: parse_stories_def parse_stories_loop_eq)

text \<open>The scenario: row A well-formed, row B without a title anchor.\<close>

lemma parse_stories_scenario: "parse_stories example_parser listing_ab = Inr [story_a]"
  by (simp add: parse_stories_def example_defs selector_defs getitem_def text_defs)

text \<open>
  C1, at the page \<open>listing_no_href\<close>: its one row has a title anchor and the row
  identifier 3, so it is well-formed and K = 1, but the anchor has no \<open>href\<close>, and
  \<open>parse_stories\<close> raises \<open>KeyError\<close> where one story and no error are claimed.
\<close>

theorem parse_stories_well_formed_row_raises:
  "select athing (BeautifulSoup example_parser listing_no_href) = [row_no_href]
   \<and> well_formed_story_row row_no_href
   \<and> parse_stories example_parser listing_no_href = Inl (KeyError ''href'')"
  by (simp add: parse_stories_def example_defs selector_defs getitem_def
        well_formed_story_row_def has_element_def has_row_id_def)

text \<open>
  C5, at the page \<open>listing_a_no_href\<close>: \<open>parse_stories\<close> does not return a sequence
  for every markup. Row A is followed by a row whose title anchor has no \<open>href\<close>; the
  subscript raises \<open>KeyError\<close> and the story of row A is not returned either.
\<close>

theorem parse_stories_raises_key_error:
  "parse_stories example_parser listing_a_no_href = Inl (KeyError ''href'')"
  by (simp add: parse_stories_def example_defs selector_defs getitem_def text_defs)

section \<open>The comment extractor\<close>

text \<open>
  C2: \<open>parse_comments\<close> returns the records of the well-formed comment rows, as many as
  there are and in the order of the document, and a row that lacks the username or the
  body element can be removed from the rows without changing what the loop returns.
\<close>

theorem parse_comments_well_formed_rows:
  "parse_comments html_parser html =
     map comment_of_row
       (filter well_formed_comment_row (select tr_comtr (BeautifulSoup html_parser html)))
   \<and> length (parse_comments html_parser html) =
       length (filter well_formed_comment_row (select tr_comtr (BeautifulSoup html_parser html)))
   \<and> (\<not> well_formed_comment_row bad \<longrightarrow>
        parse_comments_loop (before @ bad # after) acc =
        parse_comments_loop (before @ after) acc)"
  by (simp add: parse_comments_def parse_comments_loop_eq)

theorem parse_comments_well_formed_rows_witness:
  "\<not> well_formed_comment_row (comment_rows ! 1)
   \<and> select tr_comtr (BeautifulSoup example_parser item_page) = comment_rows
   \<and> filter well_formed_comment_row comment_rows = [comment_rows ! 0, comment_rows ! 2]
   \<and> parse_comments example_parser item_page =
       [\<lparr>comment_user = ''alice'', comment_text = ''first nested reply''\<rparr>,
        \<lparr>comment_user = ''carol'', comment_text = ''third''\<rparr>]
   \<and> parse_comments_loop [comment_rows ! 0, comment_rows ! 1, comment_rows ! 2] [] =
       parse_comments_loop [comment_rows ! 0, comment_rows ! 2] []"
  using parse_comments_well_formed_rows
          [of example_parser item_page "comment_rows ! 1" "[comment_rows ! 0]"
              "[comment_rows ! 2]" "[]"]
  by (simp add: example_defs selector_defs text_defs comment_of_row_def
        well_formed_comment_row_def has_element_def)

section \<open>The item enricher\<close>

lemma fetch_story_with_comments_Inr:
  "fetch net (ITEM_URL (story_id s)) = Inr detail \<Longrightarrow>
   fetch_story_with_comments html_parser net s =
     Inr (s\<lparr>story_comments := Some (parse_comments html_parser detail)\<rparr>)"
  by (simp add: fetch_story_with_comments_def)

lemma fetch_story_with_comments_Inl:
  "fetch net (ITEM_URL (story_id s)) = Inl err \<Longrightarrow>
   fetch_story_with_comments html_parser net s = Inl err"
  by (simp add: fetch_story_with_comments_def)

text \<open>
  C3: for a story that \<open>parse_stories\<close> returned and an item page that the fetch
  returned, \<open>fetch_story_with_comments\<close> returns the story with \<open>id\<close>, \<open>title\<close> and
  \<open>link\<close> as they were and with \<open>comments\<close> set to what \<open>parse_comments\<close> returns
  for that page.
\<close>

theorem fetch_story_with_comments_frame:
  assumes "parse_stories html_parser listing = Inr stories"
    and "s \<in> set stories"
    and "fetch net (ITEM_URL (story_id s)) = Inr detail"
  shows "\<exists>s'. fetch_story_with_comments html_parser net s = Inr s'
           \<and> story_id s' = story_id s \<and> story_title s' = story_title s
           \<and> story_link s' = story_link s
           \<and> story_comments s' = Some (parse_comments html_parser detail)"
  using assms(3) by (simp add: fetch_story_with_comments_def)

theorem fetch_story_with_comments_frame_witness:
  "parse_stories example_parser listing_ab = Inr [story_a]
   \<and> story_a \<in> set [story_a]
   \<and> fetch example_net (ITEM_URL (story_id story_a)) = Inr item_page
   \<and> (\<exists>s'. fetch_story_with_comments example_parser example_net story_a = Inr s'
          \<and> story_id s' = ''1'' \<and> story_title s' = ''Hello'' \<and> story_link s' = ''http://x''
          \<and> story_comments s' =
              Some [\<lparr>comment_user = ''alice'', comment_text = ''first nested reply''\<rparr>,
                    \<lparr>comment_user = ''carol'', comment_text = ''third''\<rparr>])"
proof -
  have listing: "parse_stories example_parser listing_ab = Inr [story_a]"
    by (rule parse_stories_scenario)
  have member: "story_a \<in> set [story_a]"
    by simp
  have detail: "fetch example_net (ITEM_URL (story_id story_a)) = Inr item_page"
    by (simp add: fetch_def example_net_def story_a_def ITEM_URL_def BASE_URL_def)
  have comments: "parse_comments example_parser item_page =
      [\<lparr>comment_user = ''alice'', comment_text = ''first nested reply''\<rparr>,
       \<lparr>comment_user = ''carol'', comment_text = ''third''\<rparr>]"
    by (simp add: parse_comments_def example_defs selector_defs text_defs)
  from fetch_story_with_comments_frame [OF listing member detail] comments listing member detail
  show ?thesis
    by (simp add: story_a_def)
qed

section \<open>URLs\<close>

lemma nat_of_str_str_nat: "nat_of_str (str_nat n) = n"
proof (induction n rule: str_nat.induct)
  case (1 n)
  show ?case
  proof (cases "n < 10")
    case True
    then show ?thesis by (subst str_nat.simps) (simp add: nat_of_str_def)
  next
    case False
    with 1 have "nat_of_str (str_nat (n div 10)) = n div 10" by simp
    with False show ?thesis
      by (subst str_nat.simps) (simp add: nat_of_str_def)
  qed
qed

lemma inj_BASE_URL: "inj BASE_URL"
proof (rule injI)
  fix m n
  assume "BASE_URL m = BASE_URL n"
  then have "str_nat m = str_nat n"
    by (simp add: BASE_URL_def)
  then have "nat_of_str (str_nat m) = nat_of_str (str_nat n)"
    by simp
  then show "m = n"
    by (simp add: nat_of_str_str_nat)
qed

lemma BASE_URL_eq_iff: "BASE_URL m = BASE_URL n \<longleftrightarrow> m = n"
  using inj_BASE_URL by (auto dest: injD)

lemma BASE_URL_neq_ITEM_URL: "BASE_URL n \<noteq> ITEM_URL sid"
  by (simp add: BASE_URL_def ITEM_URL_def)

lemma ITEM_URL_eq_iff: "ITEM_URL a = ITEM_URL b \<longleftrightarrow> a = b"
  by (simp add: ITEM_URL_def)

lemma distinct_main_queue: "distinct main_queue"
  by (simp add: main_queue_def distinct_map inj_on_subset [OF inj_BASE_URL])

lemma main_queue_Cons: "main_queue = BASE_URL 1 # tl main_queue"
proof -
  have "[1..<101] = (1::nat) # [Suc 1..<101]"
    by (rule upt_conv_Cons) simp
  then show ?thesis
    by (simp add: main_queue_def)
qed

section \<open>The task group\<close>

lemma errors_map_set: "e \<in> set (errors (map f xs)) \<longleftrightarrow> (\<exists>x \<in> set xs. f x = Inl e)"
proof (induction xs)
  case Nil
  then show ?case by (simp add: errors_def)
next
  case (Cons x xs)
  then show ?case by (cases "f x") (auto simp: errors_def)
qed

lemma returned_map:
  "errors (map f xs) = [] \<Longrightarrow> list_all2 (\<lambda>x y. f x = Inr y) xs (returned (map f xs))"
proof (induction xs)
  case Nil
  then show ?case by (simp add: returned_def)
next
  case (Cons x xs)
  then show ?case by (cases "f x") (simp_all add: errors_def returned_def)
qed

lemma task_group_Inr:
  assumes "task_group (map f xs) = Inr ys"
  shows "list_all2 (\<lambda>x y. f x = Inr y) xs ys"
proof (cases "errors (map f xs) = []")
  case True
  with assms have "ys = returned (map f xs)"
    by (simp add: task_group_def)
  with True show ?thesis
    by (simp add: returned_map)
next
  case False
  with assms show ?thesis
    by (simp add: task_group_def)
qed

lemma task_group_Inl:
  assumes "task_group (map f xs) = Inl err"
  shows "\<exists>es. err = ExceptionGroup es \<and> es \<noteq> [] \<and> (\<forall>e \<in> set es. \<exists>x \<in> set xs. f x = Inl e)"
proof (cases "errors (map f xs) = []")
  case True
  with assms show ?thesis
    by (simp add: task_group_def)
next
  case False
  with assms have "err = ExceptionGroup (errors (map f xs))"
    by (simp add: task_group_def)
  with False show ?thesis
    using errors_map_set [of _ f xs] by blast
qed

lemma task_group_raises:
  assumes "x \<in> set xs" and "f x = Inl e"
  shows "\<exists>es. task_group (map f xs) = Inl (ExceptionGroup es)"
proof -
  from assms have "e \<in> set (errors (map f xs))"
    using errors_map_set [of e f xs] by blast
  then have "errors (map f xs) \<noteq> []"
    by auto
  then show ?thesis
    by (simp add: task_group_def)
qed

section \<open>One page\<close>

lemma worker_page_fetch_error:
  "fetch net page = Inl err \<Longrightarrow>
   worker_page html_parser net page = Inl (Raised (ExceptionGroup [err]))"
  by (simp add: worker_page_def)

lemma worker_page_parse_error:
  "fetch net page = Inr html \<Longrightarrow> parse_stories html_parser html = Inl err \<Longrightarrow>
   worker_page html_parser net page = Inl (Raised (ExceptionGroup [err]))"
  by (simp add: worker_page_def)

lemma worker_page_stories:
  "fetch net page = Inr html \<Longrightarrow> parse_stories html_parser html = Inr stories \<Longrightarrow>
   worker_page html_parser net page =
     (if stories = [] then Inl NoStories
      else (case task_group (map (fetch_story_with_comments html_parser net) stories) of
              Inl err \<Rightarrow> Inl (Raised err)
            | Inr enriched \<Rightarrow> Inr enriched))"
  by (simp add: worker_page_def)

lemma worker_page_cases:
  obtains (fetch_error) err where "fetch net page = Inl err"
    | (parse_error) html err where "fetch net page = Inr html"
        and "parse_stories html_parser html = Inl err"
    | (stories) html stories where "fetch net page = Inr html"
        and "parse_stories html_parser html = Inr stories"
proof (cases "fetch net page")
  case (Inl err)
  then show ?thesis by (rule fetch_error)
next
  case (Inr html)
  then show ?thesis
    by (cases "parse_stories html_parser html") (auto intro: parse_error stories)
qed

lemma worker_page_NoStories_iff:
  "worker_page html_parser net page = Inl NoStories \<longleftrightarrow> yields_no_stories html_parser net page"
proof (cases rule: worker_page_cases [where net = net and page = page and html_parser = html_parser])
  case (fetch_error err)
  then show ?thesis
    by (simp add: worker_page_fetch_error yields_no_stories_def)
next
  case (parse_error html err)
  then show ?thesis
    by (simp add: worker_page_parse_error yields_no_stories_def)
next
  case (stories html stories)
  then show ?thesis
    by (simp add: worker_page_stories yields_no_stories_def split: sum.splits)
qed

lemma worker_page_Inr:
  assumes "worker_page html_parser net page = Inr enriched"
  shows "\<exists>html stories. fetch net page = Inr html \<and> parse_stories html_parser html = Inr stories
     \<and> stories \<noteq> []
     \<and> list_all2 (\<lambda>s s'. fetch_story_with_comments html_parser net s = Inr s') stories enriched"
proof (cases rule: worker_page_cases [where net = net and page = page and html_parser = html_parser])
  case (fetch_error err)
  with assms show ?thesis
    by (simp add: worker_page_fetch_error)
next
  case (parse_error html err)
  with assms show ?thesis
    by (simp add: worker_page_parse_error)
next
  case (stories html stories)
  with assms have ne: "stories \<noteq> []"
    and tg: "task_group (map (fetch_story_with_comments html_parser net) stories) = Inr enriched"
    by (auto simp: worker_page_stories split: if_splits sum.splits)
  from tg have "list_all2 (\<lambda>s s'. fetch_story_with_comments html_parser net s = Inr s')
      stories enriched"
    by (rule task_group_Inr)
  with stories ne show ?thesis
    by blast
qed

lemma worker_page_task_error:
  assumes "fetch net page = Inr html" and "parse_stories html_parser html = Inr stories"
    and "s \<in> set stories" and "fetch net (ITEM_URL (story_id s)) = Inl err"
  shows "\<exists>es. worker_page html_parser net page = Inl (Raised (ExceptionGroup es)) \<and> es \<noteq> []
           \<and> (\<forall>e \<in> set es. \<exists>t \<in> set stories. fetch net (ITEM_URL (story_id t)) = Inl e)"
proof -
  let ?f = "fetch_story_with_comments html_parser net"
  have "?f s = Inl err"
    using assms(4) by (simp add: fetch_story_with_comments_def)
  with assms(3) obtain es where es: "task_group (map ?f stories) = Inl (ExceptionGroup es)"
    using task_group_raises [of s stories ?f err] by blast
  from task_group_Inl [OF es]
  have members: "es \<noteq> [] \<and> (\<forall>e \<in> set es. \<exists>t \<in> set stories. ?f t = Inl e)"
    by simp
  have "fetch net (ITEM_URL (story_id t)) = Inl e" if "?f t = Inl e" for t e
    using that by (cases "fetch net (ITEM_URL (story_id t))")
      (simp_all add: fetch_story_with_comments_def)
  with members have "es \<noteq> []
      \<and> (\<forall>e \<in> set es. \<exists>t \<in> set stories. fetch net (ITEM_URL (story_id t)) = Inl e)"
    by blast
  moreover from assms(3) have "stories \<noteq> []"
    by auto
  with assms(1,2) es
  have "worker_page html_parser net page = Inl (Raised (ExceptionGroup es))"
    by (simp add: worker_page_stories)
  ultimately show ?thesis
    by blast
qed

lemma enriched_has_comments:
  "fetch_story_with_comments html_parser net s = Inr s' \<Longrightarrow> story_comments s' \<noteq> None"
  by (cases "fetch net (ITEM_URL (story_id s))")
     (auto simp: fetch_story_with_comments_def)

lemma worker_page_comments:
  assumes "worker_page html_parser net page = Inr enriched"
  shows "\<forall>s \<in> set enriched. story_comments s \<noteq> None"
proof
  fix s'
  assume "s' \<in> set enriched"
  moreover from assms obtain stories where
    "list_all2 (\<lambda>s s'. fetch_story_with_comments html_parser net s = Inr s') stories enriched"
    using worker_page_Inr by blast
  ultimately obtain s where "fetch_story_with_comments html_parser net s = Inr s'"
    by (auto simp: list_all2_conv_all_nth in_set_conv_nth)
  then show "story_comments s' \<noteq> None"
    by (rule enriched_has_comments)
qed

section \<open>The loop of the worker\<close>

lemma worker_page_not_QueueEmpty: "worker_page html_parser net page \<noteq> Inl QueueEmpty"
proof (cases rule: worker_page_cases [where net = net and page = page and html_parser = html_parser])
  case (fetch_error err)
  then show ?thesis by (simp add: worker_page_fetch_error)
next
  case (parse_error html err)
  then show ?thesis by (simp add: worker_page_parse_error)
next
  case (stories html stories)
  then show ?thesis by (simp add: worker_page_stories split: sum.splits)
qed

lemma worker_no_stories:
  "yields_no_stories html_parser net page \<Longrightarrow>
   worker html_parser net (page # rest) all_stories = (NoStories, rest, all_stories)"
  by (simp add: worker_page_NoStories_iff [symmetric])

lemma worker_continue:
  "worker_page html_parser net page = Inr stories \<Longrightarrow>
   worker html_parser net (page # rest) all_stories =
   worker html_parser net rest (all_stories @ stories)"
  by simp

lemma worker_QueueEmpty:
  "worker html_parser net queue all_stories = (QueueEmpty, queue', all_stories') \<Longrightarrow>
   queue' = [] \<and> (\<forall>p \<in> set queue. \<not> yields_no_stories html_parser net p)"
proof (induction queue arbitrary: all_stories)
  case Nil
  then show ?case by simp
next
  case (Cons page queue)
  show ?case
  proof (cases "worker_page html_parser net page")
    case (Inl ex)
    with Cons.prems have "ex = QueueEmpty" by simp
    with Inl show ?thesis by (simp add: worker_page_not_QueueEmpty)
  next
    case (Inr stories)
    then have "\<not> yields_no_stories html_parser net page"
      by (simp add: worker_page_NoStories_iff [symmetric])
    moreover from Inr Cons.prems
    have "worker html_parser net queue (all_stories @ stories) = (QueueEmpty, queue', all_stories')"
      by simp
    then have "queue' = [] \<and> (\<forall>p \<in> set queue. \<not> yields_no_stories html_parser net p)"
      by (rule Cons.IH)
    ultimately show ?thesis by simp
  qed
qed

lemma worker_NoStories:
  "worker html_parser net queue all_stories = (NoStories, queue', all_stories') \<Longrightarrow>
   \<exists>pre page. queue = pre @ page # queue' \<and> yields_no_stories html_parser net page
     \<and> (\<forall>p \<in> set pre. \<not> yields_no_stories html_parser net p)"
proof (induction queue arbitrary: all_stories)
  case Nil
  then show ?case by simp
next
  case (Cons page queue)
  show ?case
  proof (cases "worker_page html_parser net page")
    case (Inl ex)
    with Cons.prems have "ex = NoStories" and "queue' = queue" by simp_all
    with Inl have "page # queue = [] @ page # queue' \<and> yields_no_stories html_parser net page"
      by (simp add: worker_page_NoStories_iff)
    then show ?thesis by (metis empty_iff empty_set)
  next
    case (Inr stories)
    then have no: "\<not> yields_no_stories html_parser net page"
      by (simp add: worker_page_NoStories_iff [symmetric])
    from Inr Cons.prems
    have "worker html_parser net queue (all_stories @ stories) = (NoStories, queue', all_stories')"
      by simp
    then obtain pre p where "queue = pre @ p # queue'" "yields_no_stories html_parser net p"
      "\<forall>x \<in> set pre. \<not> yields_no_stories html_parser net x"
      using Cons.IH by blast
    with no have "page # queue = (page # pre) @ p # queue' \<and> yields_no_stories html_parser net p
      \<and> (\<forall>x \<in> set (page # pre). \<not> yields_no_stories html_parser net x)"
      by simp
    then show ?thesis by blast
  qed
qed

lemma worker_queue_drop:
  "\<exists>k. fst (snd (worker html_parser net queue all_stories)) = drop k queue"
proof (induction queue arbitrary: all_stories)
  case Nil
  then show ?case by simp
next
  case (Cons page queue)
  show ?case
  proof (cases "worker_page html_parser net page")
    case (Inl ex)
    then have "fst (snd (worker html_parser net (page # queue) all_stories)) = drop 1 (page # queue)"
      by simp
    then show ?thesis by blast
  next
    case (Inr stories)
    from Cons.IH [of "all_stories @ stories"] obtain k where
      "fst (snd (worker html_parser net queue (all_stories @ stories))) = drop k queue"
      by blast
    with Inr have "fst (snd (worker html_parser net (page # queue) all_stories)) =
        drop (Suc k) (page # queue)"
      by simp
    then show ?thesis by blast
  qed
qed

lemma worker_stories_append:
  "\<exists>new. snd (snd (worker html_parser net queue all_stories)) = all_stories @ new
     \<and> (\<forall>s \<in> set new. story_comments s \<noteq> None)"
proof (induction queue arbitrary: all_stories)
  case Nil
  then show ?case by simp
next
  case (Cons page queue)
  show ?case
  proof (cases "worker_page html_parser net page")
    case (Inl ex)
    then show ?thesis by simp
  next
    case (Inr stories)
    from Cons.IH [of "all_stories @ stories"] obtain new where
      new: "snd (snd (worker html_parser net queue (all_stories @ stories))) =
          (all_stories @ stories) @ new"
      "\<forall>s \<in> set new. story_comments s \<noteq> None"
      by blast
    from Inr have "\<forall>s \<in> set stories. story_comments s \<noteq> None"
      by (rule worker_page_comments)
    with new Inr
    have "snd (snd (worker html_parser net (page # queue) all_stories)) =
        all_stories @ (stories @ new) \<and> (\<forall>s \<in> set (stories @ new). story_comments s \<noteq> None)"
      by auto
    then show ?thesis by blast
  qed
qed

section \<open>Errors are not caught\<close>

lemma fetch_story_with_comments_returns:
  "fetch_story_with_comments html_parser net s = Inr s' \<Longrightarrow>
   \<exists>d. fetch net (ITEM_URL (story_id s)) = Inr d"
  by (cases "fetch net (ITEM_URL (story_id s))") (simp_all add: fetch_story_with_comments_def)

lemma worker_page_Inr_raises_nothing:
  assumes "worker_page html_parser net page = Inr enriched"
  shows "page_raises_nothing html_parser net page"
proof -
  from worker_page_Inr [OF assms] obtain html stories where
    page: "fetch net page = Inr html" "parse_stories html_parser html = Inr stories"
    and tasks: "list_all2 (\<lambda>s s'. fetch_story_with_comments html_parser net s = Inr s')
      stories enriched"
    by blast
  have "case fetch net (ITEM_URL (story_id s)) of Inl err \<Rightarrow> False | Inr d \<Rightarrow> True"
    if "s \<in> set stories" for s
  proof -
    from that tasks obtain s' where "fetch_story_with_comments html_parser net s = Inr s'"
      by (auto simp: list_all2_conv_all_nth in_set_conv_nth)
    then obtain d where "fetch net (ITEM_URL (story_id s)) = Inr d"
      using fetch_story_with_comments_returns by blast
    then show ?thesis by simp
  qed
  with page show ?thesis
    by (simp add: page_raises_nothing_def)
qed

lemma yields_no_stories_raises_nothing:
  "yields_no_stories html_parser net page \<Longrightarrow> page_raises_nothing html_parser net page"
  by (cases "fetch net page") (simp_all add: yields_no_stories_def page_raises_nothing_def)

lemma worker_length_queue:
  "worker html_parser net queue all_stories = (ex, queue', all_stories') \<Longrightarrow>
   length queue' \<le> length queue"
proof -
  assume w: "worker html_parser net queue all_stories = (ex, queue', all_stories')"
  from worker_queue_drop [of html_parser net queue all_stories] obtain k where
    "fst (snd (worker html_parser net queue all_stories)) = drop k queue"
    by blast
  with w show ?thesis by simp
qed

lemma worker_break_raises_nothing:
  "worker html_parser net queue all_stories = (ex, queue', all_stories') \<Longrightarrow> is_break ex \<Longrightarrow>
   \<forall>p \<in> set (take (length queue - length queue') queue). page_raises_nothing html_parser net p"
proof (induction queue arbitrary: all_stories)
  case Nil
  then show ?case by simp
next
  case (Cons page queue)
  show ?case
  proof (cases "worker_page html_parser net page")
    case (Inl ex0)
    with Cons.prems have eq: "ex0 = ex" "queue' = queue"
      by simp_all
    with Cons.prems(2) Inl have "worker_page html_parser net page = Inl NoStories"
      by (cases ex) (simp_all add: worker_page_not_QueueEmpty)
    then have "page_raises_nothing html_parser net page"
      by (simp add: worker_page_NoStories_iff yields_no_stories_raises_nothing)
    with eq show ?thesis by simp
  next
    case (Inr stories)
    with Cons.prems
    have w: "worker html_parser net queue (all_stories @ stories) = (ex, queue', all_stories')"
      by simp
    then have "length queue' \<le> length queue"
      by (rule worker_length_queue)
    then have "take (length (page # queue) - length queue') (page # queue) =
        page # take (length queue - length queue') queue"
      by (simp add: Suc_diff_le)
    moreover from Inr have "page_raises_nothing html_parser net page"
      by (rule worker_page_Inr_raises_nothing)
    moreover from w Cons.prems(2)
    have "\<forall>p \<in> set (take (length queue - length queue') queue).
        page_raises_nothing html_parser net p"
      by (rule Cons.IH)
    ultimately show ?thesis by simp
  qed
qed

lemma worker_raises_fetch:
  "fetch net page = Inl err \<Longrightarrow>
   worker html_parser net (page # rest) all_stories =
     (Raised (ExceptionGroup [err]), rest, all_stories)"
  by (simp add: worker_page_fetch_error)

lemma worker_raises_task:
  assumes "fetch net page = Inr html" and "parse_stories html_parser html = Inr stories"
    and "s \<in> set stories" and "fetch net (ITEM_URL (story_id s)) = Inl err"
  shows "\<exists>es. worker html_parser net (page # rest) all_stories =
             (Raised (ExceptionGroup es), rest, all_stories) \<and> es \<noteq> []
           \<and> (\<forall>e \<in> set es. \<exists>t \<in> set stories. fetch net (ITEM_URL (story_id t)) = Inl e)"
proof -
  from worker_page_task_error [OF assms] obtain es where
    "worker_page html_parser net page = Inl (Raised (ExceptionGroup es))" "es \<noteq> []"
    "\<forall>e \<in> set es. \<exists>t \<in> set stories. fetch net (ITEM_URL (story_id t)) = Inl e"
    by blast
  then have "worker html_parser net (page # rest) all_stories =
             (Raised (ExceptionGroup es), rest, all_stories) \<and> es \<noteq> []
           \<and> (\<forall>e \<in> set es. \<exists>t \<in> set stories. fetch net (ITEM_URL (story_id t)) = Inl e)"
    by simp
  then show ?thesis by blast
qed

lemma main_single_raises:
  "worker html_parser net main_queue [] = (Raised err, queue', all_stories') \<Longrightarrow>
   main_single html_parser net rate =
     ([''Using single thread for fetching stories...''], Some err)"
  by (simp add: main_single_def)

section \<open>The pool\<close>

lemma pool_step_queue:
  "pool_step html_parser net c c' \<Longrightarrow>
   pool_queue c' = pool_queue c \<or> pool_queue c' = drop 1 (pool_queue c)"
  by (induction rule: pool_step.induct) simp_all

lemma pool_steps_queue_drop:
  "pool_steps html_parser net c c' \<Longrightarrow> \<exists>k. pool_queue c' = drop k (pool_queue c)"
proof (induction rule: pool_steps.induct)
  case (refl c)
  have "pool_queue c = drop 0 (pool_queue c)" by simp
  then show ?case by blast
next
  case (step c c' c'')
  then obtain k where k: "pool_queue c' = drop k (pool_queue c)" by blast
  from step.hyps(2) have "pool_queue c'' = pool_queue c' \<or> pool_queue c'' = drop 1 (pool_queue c')"
    by (rule pool_step_queue)
  with k have "pool_queue c'' = drop k (pool_queue c) \<or> pool_queue c'' = drop (Suc k) (pool_queue c)"
    by auto
  then show ?case by blast
qed

lemma pool_claimed_once:
  assumes "distinct (pool_queue c0)" and "pool_queue c0 = page # pool_queue c1"
    and "pool_steps html_parser net c1 c2"
  shows "page \<notin> set (pool_queue c2)"
proof -
  from assms(3) obtain k where "pool_queue c2 = drop k (pool_queue c1)"
    using pool_steps_queue_drop by blast
  then have "set (pool_queue c2) \<subseteq> set (pool_queue c1)"
    by (simp add: set_drop_subset)
  moreover from assms(1,2) have "page \<notin> set (pool_queue c1)"
    by simp
  ultimately show ?thesis by blast
qed

lemma pool_step_comments:
  "pool_step html_parser net c c' \<Longrightarrow> \<forall>s \<in> set (pool_stories c). story_comments s \<noteq> None \<Longrightarrow>
   \<forall>s \<in> set (pool_stories c'). story_comments s \<noteq> None"
proof (induction rule: pool_step.induct)
  case (extend i c page stories)
  from extend.hyps(3) have "\<forall>s \<in> set stories. story_comments s \<noteq> None"
    by (rule worker_page_comments)
  with extend.prems show ?case by auto
qed simp_all

lemma pool_steps_comments:
  "pool_steps html_parser net c c' \<Longrightarrow> \<forall>s \<in> set (pool_stories c). story_comments s \<noteq> None \<Longrightarrow>
   \<forall>s \<in> set (pool_stories c'). story_comments s \<noteq> None"
  by (induction rule: pool_steps.induct) (auto dest: pool_step_comments)

section \<open>The example network\<close>

lemmas url_simps = BASE_URL_eq_iff BASE_URL_neq_ITEM_URL BASE_URL_neq_ITEM_URL [symmetric]
  ITEM_URL_eq_iff

lemma parse_comments_item_page: "parse_comments example_parser item_page = item_comments"
  by (simp add: parse_comments_def example_defs selector_defs text_defs item_comments_def)

lemma parse_stories_empty: "parse_stories example_parser [] = Inr []"
  by (simp add: parse_stories_def example_defs selector_defs)

lemma example_page_1: "worker_page example_parser example_net (BASE_URL 1) = Inr [enriched_a]"
proof -
  have "fetch example_net (BASE_URL 1) = Inr listing_ab"
    by (simp add: fetch_def example_net_def)
  moreover have "fetch_story_with_comments example_parser example_net story_a = Inr enriched_a"
    by (simp add: fetch_story_with_comments_def fetch_def example_net_def url_simps story_a_def
          enriched_a_def parse_comments_item_page)
  ultimately show ?thesis
    by (simp add: worker_page_stories [OF _ parse_stories_scenario] task_group_def errors_def
          returned_def)
qed

lemma example_page_2: "yields_no_stories example_parser example_net (BASE_URL 2)"
  by (simp add: yields_no_stories_def fetch_def example_net_def url_simps parse_stories_empty)

lemma example_page_3:
  "worker_page example_parser example_net (BASE_URL 3) =
     Inl (Raised (ExceptionGroup [KeyError ''href'']))"
proof -
  have "fetch example_net (BASE_URL 3) = Inr listing_a_no_href"
    by (simp add: fetch_def example_net_def url_simps)
  moreover have "parse_stories example_parser listing_a_no_href = Inl (KeyError ''href'')"
    by (simp add: parse_stories_def example_defs selector_defs getitem_def text_defs)
  ultimately show ?thesis
    by (rule worker_page_parse_error)
qed

lemma listing_page_1:
  "fetch listing_net (BASE_URL 1) = Inr listing_ab
   \<and> fetch listing_net (ITEM_URL (story_id story_a)) = Inl (ClientError ''timeout'')
   \<and> fetch listing_net (BASE_URL 2) = Inl (ClientError ''timeout'')"
  by (simp add: fetch_def listing_net_def url_simps)

lemma example_worker_1:
  "worker example_parser example_net [BASE_URL 1] [] = (QueueEmpty, [], [enriched_a])"
proof -
  have "worker example_parser example_net [BASE_URL 1] [] =
      worker example_parser example_net [] ([] @ [enriched_a])"
    by (rule worker_continue [OF example_page_1])
  then show ?thesis by simp
qed

lemma example_worker_23:
  "worker example_parser example_net [BASE_URL 2, BASE_URL 3] all_stories =
     (NoStories, [BASE_URL 3], all_stories)"
  by (rule worker_no_stories [OF example_page_2])

lemma example_worker_123:
  "worker example_parser example_net [BASE_URL 1, BASE_URL 2, BASE_URL 3] [] =
     (NoStories, [BASE_URL 3], [enriched_a])"
proof -
  have "worker example_parser example_net [BASE_URL 1, BASE_URL 2, BASE_URL 3] [] =
      worker example_parser example_net [BASE_URL 2, BASE_URL 3] ([] @ [enriched_a])"
    by (rule worker_continue [OF example_page_1])
  then show ?thesis by (simp only: example_worker_23 append_Nil)
qed

lemma worker_leave:
  "worker_page html_parser net page = Inl ex \<Longrightarrow>
   worker html_parser net (page # rest) all_stories = (ex, rest, all_stories)"
  by simp

lemma listing_worker_main:
  "worker example_parser listing_net main_queue [] =
     (Raised (ExceptionGroup [ClientError ''timeout'']), tl main_queue, [])"
proof -
  have "fetch_story_with_comments example_parser listing_net story_a =
      Inl (ClientError ''timeout'')"
    using listing_page_1 by (simp add: fetch_story_with_comments_def)
  then have "worker_page example_parser listing_net (BASE_URL 1) =
      Inl (Raised (ExceptionGroup [ClientError ''timeout'']))"
    using listing_page_1
    by (simp add: worker_page_stories [OF _ parse_stories_scenario] task_group_def errors_def)
  then have leave: "worker example_parser listing_net (BASE_URL 1 # tl main_queue) [] =
      (Raised (ExceptionGroup [ClientError ''timeout'']), tl main_queue, [])"
    by (rule worker_leave)
  have "worker example_parser listing_net main_queue [] =
      worker example_parser listing_net (BASE_URL 1 # tl main_queue) []"
    by (rule arg_cong [where f = "\<lambda>q. worker example_parser listing_net q []",
          OF main_queue_Cons])
  then show ?thesis
    using leave by (rule trans)
qed

section \<open>The example pool\<close>

lemma pool_step_0_1: "pool_step html_parser net pool_0 pool_1"
  using pool_step.claim [of 0 pool_0 "BASE_URL 1" "[BASE_URL 2]" html_parser net]
  by (simp add: pool_0_def pool_1_def)

lemma pool_step_1_2: "pool_step html_parser net pool_1 pool_2"
  using pool_step.claim [of 1 pool_1 "BASE_URL 2" "[]" html_parser net]
  by (simp add: pool_1_def pool_2_def)

lemma pool_step_1_3: "pool_step example_parser example_net pool_1 pool_3"
  using pool_step.extend [of 0 pool_1 "BASE_URL 1" example_parser example_net "[enriched_a]"]
    example_page_1
  by (simp add: pool_1_def pool_3_def)

lemma pool_steps_1_2: "pool_steps html_parser net pool_1 pool_2"
  by (rule pool_steps.step [OF pool_steps.refl pool_step_1_2])

lemma pool_steps_0_3: "pool_steps example_parser example_net pool_0 pool_3"
  by (rule pool_steps.step [OF pool_steps.step [OF pool_steps.refl pool_step_0_1] pool_step_1_3])

section \<open>The outcome of a page and of a run\<close>

lemma worker_page_Raised_iff:
  "(\<exists>err. worker_page html_parser net page = Inl (Raised err)) \<longleftrightarrow>
   \<not> page_raises_nothing html_parser net page"
proof (cases "worker_page html_parser net page")
  case (Inr stories)
  then have "page_raises_nothing html_parser net page"
    by (rule worker_page_Inr_raises_nothing)
  with Inr show ?thesis by simp
next
  case (Inl ex)
  show ?thesis
  proof (cases ex)
    case QueueEmpty
    with Inl show ?thesis by (simp add: worker_page_not_QueueEmpty)
  next
    case NoStories
    with Inl have "page_raises_nothing html_parser net page"
      by (simp add: worker_page_NoStories_iff yields_no_stories_raises_nothing)
    with Inl NoStories show ?thesis by simp
  next
    case (Raised err)
    have "\<not> page_raises_nothing html_parser net page"
    proof (cases rule: worker_page_cases
        [where net = net and page = page and html_parser = html_parser])
      case (fetch_error e)
      then show ?thesis by (simp add: page_raises_nothing_def)
    next
      case (parse_error html e)
      then show ?thesis by (simp add: page_raises_nothing_def)
    next
      case (stories html stories)
      let ?f = "fetch_story_with_comments html_parser net"
      from stories Inl Raised have "task_group (map ?f stories) = Inl err"
        by (auto simp: worker_page_stories split: if_splits sum.splits)
      then obtain es where "es \<noteq> []" "\<forall>e \<in> set es. \<exists>s \<in> set stories. ?f s = Inl e"
        using task_group_Inl by blast
      then obtain e s where s: "s \<in> set stories" "?f s = Inl e"
        by (cases es) auto
      then have "fetch net (ITEM_URL (story_id s)) = Inl e"
        by (cases "fetch net (ITEM_URL (story_id s))")
           (simp_all add: fetch_story_with_comments_def)
      then have "\<not> (case fetch net (ITEM_URL (story_id s)) of
          Inl err \<Rightarrow> False | Inr d \<Rightarrow> True)"
        by simp
      with s(1) have "\<exists>s \<in> set stories. \<not> (case fetch net (ITEM_URL (story_id s)) of
          Inl err \<Rightarrow> False | Inr d \<Rightarrow> True)"
        by blast
      with stories show ?thesis
        by (simp add: page_raises_nothing_def)
    qed
    with Inl Raised show ?thesis by simp
  qed
qed

lemma worker_ends:
  "worker html_parser net queue all_stories = (ex, queue', all_stories') \<Longrightarrow>
   \<exists>pre. (\<forall>x \<in> set pre. \<exists>stories. worker_page html_parser net x = Inr stories)
     \<and> ((ex = QueueEmpty \<and> queue = pre \<and> queue' = [])
        \<or> (\<exists>p. queue = pre @ p # queue' \<and> ex = NoStories
              \<and> yields_no_stories html_parser net p)
        \<or> (\<exists>p err. queue = pre @ p # queue' \<and> ex = Raised err
              \<and> worker_page html_parser net p = Inl (Raised err)))"
proof (induction queue arbitrary: all_stories)
  case Nil
  then have "ex = QueueEmpty \<and> [] = ([] :: string list) \<and> queue' = []"
    by simp
  then show ?case by fastforce
next
  case (Cons page queue)
  show ?case
  proof (cases "worker_page html_parser net page")
    case (Inl ex0)
    with Cons.prems have eq: "ex0 = ex" "queue' = queue"
      by simp_all
    show ?thesis
    proof (cases ex)
      case QueueEmpty
      with Inl eq show ?thesis by (simp add: worker_page_not_QueueEmpty)
    next
      case NoStories
      with Inl eq have "page # queue = [] @ page # queue' \<and> ex = NoStories
          \<and> yields_no_stories html_parser net page"
        by (simp add: worker_page_NoStories_iff)
      then show ?thesis by (metis empty_iff empty_set)
    next
      case (Raised err)
      with Inl eq have "page # queue = [] @ page # queue' \<and> ex = Raised err
          \<and> worker_page html_parser net page = Inl (Raised err)"
        by simp
      then show ?thesis by (metis empty_iff empty_set)
    qed
  next
    case (Inr stories)
    with Cons.prems
    have "worker html_parser net queue (all_stories @ stories) = (ex, queue', all_stories')"
      by simp
    from Cons.IH [OF this] obtain pre where
      pre: "\<forall>x \<in> set pre. \<exists>stories. worker_page html_parser net x = Inr stories"
      and ends: "(ex = QueueEmpty \<and> queue = pre \<and> queue' = [])
        \<or> (\<exists>p. queue = pre @ p # queue' \<and> ex = NoStories
              \<and> yields_no_stories html_parser net p)
        \<or> (\<exists>p err. queue = pre @ p # queue' \<and> ex = Raised err
              \<and> worker_page html_parser net p = Inl (Raised err))"
      by blast
    from pre Inr
    have "\<forall>x \<in> set (page # pre). \<exists>stories. worker_page html_parser net x = Inr stories"
      by simp
    moreover from ends
    have "(ex = QueueEmpty \<and> page # queue = page # pre \<and> queue' = [])
        \<or> (\<exists>p. page # queue = (page # pre) @ p # queue' \<and> ex = NoStories
              \<and> yields_no_stories html_parser net p)
        \<or> (\<exists>p err. page # queue = (page # pre) @ p # queue' \<and> ex = Raised err
              \<and> worker_page html_parser net p = Inl (Raised err))"
      by auto
    ultimately show ?thesis by blast
  qed
qed

lemma pool_step_ended_stays:
  "pool_step html_parser net c c' \<Longrightarrow> i < length (pool_workers c) \<Longrightarrow>
   pool_workers c ! i = Ended ex \<Longrightarrow>
   pool_workers c' ! i = Ended ex \<and> length (pool_workers c') = length (pool_workers c)"
  by (induction rule: pool_step.induct) (auto simp: nth_list_update)

lemma pool_steps_ended_stays:
  "pool_steps html_parser net c c' \<Longrightarrow> i < length (pool_workers c) \<Longrightarrow>
   pool_workers c ! i = Ended ex \<Longrightarrow>
   pool_workers c' ! i = Ended ex \<and> length (pool_workers c') = length (pool_workers c)"
proof (induction rule: pool_steps.induct)
  case (refl c)
  then show ?case by simp
next
  case (step c c' c'')
  then have "pool_workers c' ! i = Ended ex \<and> length (pool_workers c') = length (pool_workers c)"
    by simp
  with step.hyps(2) step.prems(1) show ?case
    using pool_step_ended_stays [of html_parser net c' c'' i ex] by simp
qed

lemma pool_step_ends:
  "pool_step html_parser net c c' \<Longrightarrow> i < length (pool_workers c) \<Longrightarrow>
   pool_workers c' ! i = Ended ex \<Longrightarrow>
   pool_workers c ! i = Ended ex
   \<or> (pool_workers c ! i = Claiming \<and> pool_queue c = [] \<and> ex = QueueEmpty)
   \<or> (\<exists>page. pool_workers c ! i = Holding page \<and> worker_page html_parser net page = Inl ex)"
  by (induction rule: pool_step.induct) (auto simp: nth_list_update split: if_splits)

lemma example_worker_132:
  "worker example_parser example_net [BASE_URL 1, BASE_URL 3, BASE_URL 2] [] =
     (Raised (ExceptionGroup [KeyError ''href'']), [BASE_URL 2], [enriched_a])"
proof -
  have "worker example_parser example_net [BASE_URL 1, BASE_URL 3, BASE_URL 2] [] =
      worker example_parser example_net [BASE_URL 3, BASE_URL 2] ([] @ [enriched_a])"
    by (rule worker_continue [OF example_page_1])
  also have "\<dots> = (Raised (ExceptionGroup [KeyError ''href'']), [BASE_URL 2], [] @ [enriched_a])"
    by (rule worker_leave [OF example_page_3])
  finally show ?thesis by simp
qed

lemma pool_step_6_7: "pool_step example_parser example_net pool_6 pool_7"
  using pool_step.leave [of 0 pool_6 "BASE_URL 2" example_parser example_net NoStories]
    example_page_2
  by (simp add: pool_6_def pool_7_def worker_page_NoStories_iff)

lemma pool_steps_7_8: "pool_steps html_parser net pool_7 pool_8"
proof -
  have "pool_step html_parser net pool_7 pool_8"
    using pool_step.claim [of 1 pool_7 "BASE_URL 3" "[]" html_parser net]
    by (simp add: pool_7_def pool_8_def)
  then show ?thesis
    by (rule pool_steps.step [OF pool_steps.refl])
qed

section \<open>The ends of the worker\<close>

text \<open>
  C4, as the claim states it: the worker would end only on an empty queue or on a page
  without stories. On a network where the fetch of page 2 times out the worker ends at its
  first claim, with the queue not empty and the page not one without stories.
\<close>

theorem worker_ends_by_error_counterexample:
  "worker example_parser listing_net [BASE_URL 2, BASE_URL 3] [] =
     (Raised (ExceptionGroup [ClientError ''timeout'']), [BASE_URL 3], [])
   \<and> [BASE_URL 2, BASE_URL 3] \<noteq> []
   \<and> \<not> yields_no_stories example_parser listing_net (BASE_URL 2)"
  using listing_page_1
  by (simp add: worker_page_fetch_error yields_no_stories_def)

text \<open>
  C4, amended: the worker ends in exactly one of three ways, at the first point of its run
  where one of them applies: (a) the queue is empty at the claim, (b) the claimed page is
  fetched and no story is extracted from it, (c) the fetch of the claimed page, the
  extraction or an enrichment task raises, and the error leaves the loop uncaught. It
  returns normally exactly in the cases (a) and (b). In the cases (b) and (c) the rest of
  the queue stays unclaimed; on a page with stories whose tasks all return the worker goes
  on. In the pool a worker ends only in these ways, and a worker that has ended stays
  ended whatever the other workers do.
\<close>

theorem worker_exit_conditions:
  "worker html_parser net [] all_a = (QueueEmpty, [], all_a)
   \<and> (yields_no_stories html_parser net page_b \<longrightarrow>
        worker html_parser net (page_b # rest_b) all_b = (NoStories, rest_b, all_b))
   \<and> (worker_page html_parser net page_c = Inl (Raised err_c) \<longrightarrow>
        worker html_parser net (page_c # rest_c) all_c = (Raised err_c, rest_c, all_c))
   \<and> (worker_page html_parser net page_d = Inr stories_d \<longrightarrow>
        worker html_parser net (page_d # rest_d) all_d =
        worker html_parser net rest_d (all_d @ stories_d))
   \<and> ((worker_page html_parser net page_e = Inl NoStories) =
        yields_no_stories html_parser net page_e)
   \<and> ((\<exists>err. worker_page html_parser net page_e = Inl (Raised err)) =
        (\<not> page_raises_nothing html_parser net page_e))
   \<and> (worker html_parser net queue_f all_f = (ex_f, queue_f', all_f') \<longrightarrow>
        (\<exists>pre. (\<forall>x \<in> set pre. \<exists>stories. worker_page html_parser net x = Inr stories)
           \<and> ((ex_f = QueueEmpty \<and> queue_f = pre \<and> queue_f' = [])
              \<or> (\<exists>p. queue_f = pre @ p # queue_f' \<and> ex_f = NoStories
                    \<and> yields_no_stories html_parser net p)
              \<or> (\<exists>p err. queue_f = pre @ p # queue_f' \<and> ex_f = Raised err
                    \<and> worker_page html_parser net p = Inl (Raised err)))))
   \<and> (pool_steps html_parser net c_g c_g' \<and> i < length (pool_workers c_g)
        \<and> pool_workers c_g ! i = Ended ex_g \<longrightarrow>
        pool_workers c_g' ! i = Ended ex_g)
   \<and> (pool_step html_parser net c_h c_h' \<and> j < length (pool_workers c_h)
        \<and> pool_workers c_h' ! j = Ended ex_h \<longrightarrow>
        pool_workers c_h ! j = Ended ex_h
        \<or> (pool_workers c_h ! j = Claiming \<and> pool_queue c_h = [] \<and> ex_h = QueueEmpty)
        \<or> (\<exists>page. pool_workers c_h ! j = Holding page
              \<and> worker_page html_parser net page = Inl ex_h))"
proof (intro conjI impI)
  show "worker html_parser net [] all_a = (QueueEmpty, [], all_a)"
    by simp
next
  assume "yields_no_stories html_parser net page_b"
  then show "worker html_parser net (page_b # rest_b) all_b = (NoStories, rest_b, all_b)"
    by (rule worker_no_stories)
next
  assume "worker_page html_parser net page_c = Inl (Raised err_c)"
  then show "worker html_parser net (page_c # rest_c) all_c = (Raised err_c, rest_c, all_c)"
    by (rule worker_leave)
next
  assume "worker_page html_parser net page_d = Inr stories_d"
  then show "worker html_parser net (page_d # rest_d) all_d =
      worker html_parser net rest_d (all_d @ stories_d)"
    by (rule worker_continue)
next
  show "(worker_page html_parser net page_e = Inl NoStories) =
      yields_no_stories html_parser net page_e"
    by (rule worker_page_NoStories_iff)
next
  show "(\<exists>err. worker_page html_parser net page_e = Inl (Raised err)) =
      (\<not> page_raises_nothing html_parser net page_e)"
    by (rule worker_page_Raised_iff)
next
  assume "worker html_parser net queue_f all_f = (ex_f, queue_f', all_f')"
  then show "\<exists>pre. (\<forall>x \<in> set pre. \<exists>stories. worker_page html_parser net x = Inr stories)
           \<and> ((ex_f = QueueEmpty \<and> queue_f = pre \<and> queue_f' = [])
              \<or> (\<exists>p. queue_f = pre @ p # queue_f' \<and> ex_f = NoStories
                    \<and> yields_no_stories html_parser net p)
              \<or> (\<exists>p err. queue_f = pre @ p # queue_f' \<and> ex_f = Raised err
                    \<and> worker_page html_parser net p = Inl (Raised err)))"
    by (rule worker_ends)
next
  assume "pool_steps html_parser net c_g c_g' \<and> i < length (pool_workers c_g)
        \<and> pool_workers c_g ! i = Ended ex_g"
  then show "pool_workers c_g' ! i = Ended ex_g"
    using pool_steps_ended_stays [of html_parser net c_g c_g' i ex_g] by blast
next
  assume "pool_step html_parser net c_h c_h' \<and> j < length (pool_workers c_h)
        \<and> pool_workers c_h' ! j = Ended ex_h"
  then show "pool_workers c_h ! j = Ended ex_h
        \<or> (pool_workers c_h ! j = Claiming \<and> pool_queue c_h = [] \<and> ex_h = QueueEmpty)
        \<or> (\<exists>page. pool_workers c_h ! j = Holding page
              \<and> worker_page html_parser net page = Inl ex_h)"
    using pool_step_ends [of html_parser net c_h c_h' j ex_h] by blast
qed

theorem worker_exit_conditions_witness:
  "yields_no_stories example_parser example_net (BASE_URL 2)
   \<and> worker example_parser example_net [BASE_URL 2, BASE_URL 3] [] = (NoStories, [BASE_URL 3], [])
   \<and> worker_page example_parser example_net (BASE_URL 3) =
       Inl (Raised (ExceptionGroup [KeyError ''href'']))
   \<and> worker example_parser example_net [BASE_URL 3, BASE_URL 2] [] =
       (Raised (ExceptionGroup [KeyError ''href'']), [BASE_URL 2], [])
   \<and> worker_page example_parser example_net (BASE_URL 1) = Inr [enriched_a]
   \<and> worker example_parser example_net [BASE_URL 1, BASE_URL 3, BASE_URL 2] [] =
       worker example_parser example_net [BASE_URL 3, BASE_URL 2] ([] @ [enriched_a])
   \<and> worker_page example_parser example_net (BASE_URL 2) = Inl NoStories
   \<and> \<not> page_raises_nothing example_parser example_net (BASE_URL 3)
   \<and> worker example_parser example_net [BASE_URL 1, BASE_URL 3, BASE_URL 2] [] =
       (Raised (ExceptionGroup [KeyError ''href'']), [BASE_URL 2], [enriched_a])
   \<and> (\<exists>pre. (\<forall>x \<in> set pre. \<exists>stories. worker_page example_parser example_net x = Inr stories)
          \<and> (\<exists>p err. [BASE_URL 1, BASE_URL 3, BASE_URL 2] = pre @ p # [BASE_URL 2]
                \<and> worker_page example_parser example_net p = Inl (Raised err)))
   \<and> pool_steps example_parser example_net pool_7 pool_8
   \<and> pool_workers pool_7 ! 0 = Ended NoStories
   \<and> pool_workers pool_8 ! 0 = Ended NoStories
   \<and> pool_queue pool_7 = [BASE_URL 3]
   \<and> pool_step example_parser example_net pool_6 pool_7
   \<and> pool_workers pool_6 ! 0 = Holding (BASE_URL 2)"
proof -
  note on_23 = worker_exit_conditions
    [where html_parser = example_parser and net = example_net
       and page_b = "BASE_URL 2" and rest_b = "[BASE_URL 3]" and all_b = "[]"
       and page_c = "BASE_URL 3" and err_c = "ExceptionGroup [KeyError ''href'']"
       and rest_c = "[BASE_URL 2]" and all_c = "[]"
       and page_d = "BASE_URL 1" and stories_d = "[enriched_a]"
       and rest_d = "[BASE_URL 3, BASE_URL 2]" and all_d = "[]"
       and page_e = "BASE_URL 2"
       and queue_f = "[BASE_URL 1, BASE_URL 3, BASE_URL 2]" and all_f = "[]"
       and ex_f = "Raised (ExceptionGroup [KeyError ''href''])"
       and queue_f' = "[BASE_URL 2]" and all_f' = "[enriched_a]"
       and c_g = pool_7 and c_g' = pool_8 and i = 0 and ex_g = NoStories
       and c_h = pool_6 and c_h' = pool_7 and j = 0 and ex_h = NoStories
       and all_a = "[]"]
  note on_3 = worker_exit_conditions
    [where html_parser = example_parser and net = example_net
       and page_b = "BASE_URL 2" and rest_b = "[BASE_URL 3]" and all_b = "[]"
       and page_c = "BASE_URL 3" and err_c = "ExceptionGroup [KeyError ''href'']"
       and rest_c = "[BASE_URL 2]" and all_c = "[]"
       and page_d = "BASE_URL 1" and stories_d = "[enriched_a]"
       and rest_d = "[BASE_URL 3, BASE_URL 2]" and all_d = "[]"
       and page_e = "BASE_URL 3"
       and queue_f = "[BASE_URL 1, BASE_URL 3, BASE_URL 2]" and all_f = "[]"
       and ex_f = "Raised (ExceptionGroup [KeyError ''href''])"
       and queue_f' = "[BASE_URL 2]" and all_f' = "[enriched_a]"
       and c_g = pool_7 and c_g' = pool_8 and i = 0 and ex_g = NoStories
       and c_h = pool_6 and c_h' = pool_7 and j = 0 and ex_h = NoStories
       and all_a = "[]"]
  have pools: "0 < length (pool_workers pool_7) \<and> pool_workers pool_7 ! 0 = Ended NoStories
      \<and> pool_queue pool_7 = [BASE_URL 3] \<and> 0 < length (pool_workers pool_6)
      \<and> pool_workers pool_6 ! 0 = Holding (BASE_URL 2)"
    by (simp add: pool_6_def pool_7_def)
  have raised: "\<not> page_raises_nothing example_parser example_net (BASE_URL 3)"
    using on_3 example_page_3 by blast
  have ended: "pool_workers pool_8 ! 0 = Ended NoStories"
    using on_23 pools pool_steps_7_8 by blast
  have run: "\<exists>pre. (\<forall>x \<in> set pre. \<exists>stories. worker_page example_parser example_net x = Inr stories)
          \<and> (\<exists>p err. [BASE_URL 1, BASE_URL 3, BASE_URL 2] = pre @ p # [BASE_URL 2]
                \<and> worker_page example_parser example_net p = Inl (Raised err))"
    using on_23 example_worker_132 by blast
  from on_23 example_page_2 example_page_3 example_page_1 example_worker_132 pools raised
    ended run pool_steps_7_8 pool_step_6_7
  show ?thesis
    by blast
qed

section \<open>Propagation of errors\<close>

text \<open>
  C6: no error is caught. A failed fetch of an item page is the result of the enrichment
  task; a failed fetch of the listing page, and a failed enrichment task, leave the worker
  with \<open>Raised\<close>, the queue and the result collection as they were after the claim; a
  worker that ends by a \<open>break\<close> has met no error on any page it claimed; in
  single-worker mode the error of the worker ends the run before the final line. The one
  exception handled is \<open>Empty\<close> at the claim, on which the worker ends normally.
\<close>

theorem errors_propagate:
  "(fetch net (ITEM_URL (story_id s)) = Inl err \<longrightarrow>
      fetch_story_with_comments html_parser net s = Inl err)
   \<and> (fetch net page_a = Inl err_a \<longrightarrow>
        worker html_parser net (page_a # rest_a) all_a =
          (Raised (ExceptionGroup [err_a]), rest_a, all_a))
   \<and> (fetch net page_b = Inr html_b \<and> parse_stories html_parser html_b = Inr stories_b
        \<and> s_b \<in> set stories_b \<and> fetch net (ITEM_URL (story_id s_b)) = Inl err_b \<longrightarrow>
        (\<exists>es. worker html_parser net (page_b # rest_b) all_b =
                 (Raised (ExceptionGroup es), rest_b, all_b) \<and> es \<noteq> []
           \<and> (\<forall>e \<in> set es. \<exists>t \<in> set stories_b. fetch net (ITEM_URL (story_id t)) = Inl e)))
   \<and> (worker html_parser net queue_c all_c = (ex_c, queue_c', all_c') \<and> is_break ex_c \<longrightarrow>
        (\<forall>p \<in> set (take (length queue_c - length queue_c') queue_c).
           page_raises_nothing html_parser net p))
   \<and> (worker html_parser net main_queue [] = (Raised err_d, queue_d', all_d') \<longrightarrow>
        main_single html_parser net rate =
          ([''Using single thread for fetching stories...''], Some err_d))
   \<and> worker html_parser net [] all_e = (QueueEmpty, [], all_e)"
proof (intro conjI impI)
  assume "fetch net (ITEM_URL (story_id s)) = Inl err"
  then show "fetch_story_with_comments html_parser net s = Inl err"
    by (rule fetch_story_with_comments_Inl)
next
  assume "fetch net page_a = Inl err_a"
  then show "worker html_parser net (page_a # rest_a) all_a =
      (Raised (ExceptionGroup [err_a]), rest_a, all_a)"
    by (rule worker_raises_fetch)
next
  assume "fetch net page_b = Inr html_b \<and> parse_stories html_parser html_b = Inr stories_b
        \<and> s_b \<in> set stories_b \<and> fetch net (ITEM_URL (story_id s_b)) = Inl err_b"
  then show "\<exists>es. worker html_parser net (page_b # rest_b) all_b =
                 (Raised (ExceptionGroup es), rest_b, all_b) \<and> es \<noteq> []
           \<and> (\<forall>e \<in> set es. \<exists>t \<in> set stories_b. fetch net (ITEM_URL (story_id t)) = Inl e)"
    using worker_raises_task [of net page_b html_b html_parser stories_b s_b err_b rest_b all_b]
    by blast
next
  assume "worker html_parser net queue_c all_c = (ex_c, queue_c', all_c') \<and> is_break ex_c"
  then show "\<forall>p \<in> set (take (length queue_c - length queue_c') queue_c).
           page_raises_nothing html_parser net p"
    using worker_break_raises_nothing [of html_parser net queue_c all_c ex_c queue_c' all_c']
    by blast
next
  assume "worker html_parser net main_queue [] = (Raised err_d, queue_d', all_d')"
  then show "main_single html_parser net rate =
          ([''Using single thread for fetching stories...''], Some err_d)"
    by (rule main_single_raises)
next
  show "worker html_parser net [] all_e = (QueueEmpty, [], all_e)"
    by simp
qed

theorem errors_propagate_witness:
  "fetch listing_net (ITEM_URL (story_id story_a)) = Inl (ClientError ''timeout'')
   \<and> fetch_story_with_comments example_parser listing_net story_a = Inl (ClientError ''timeout'')
   \<and> fetch listing_net (BASE_URL 2) = Inl (ClientError ''timeout'')
   \<and> worker example_parser listing_net [BASE_URL 2, BASE_URL 3] [] =
       (Raised (ExceptionGroup [ClientError ''timeout'']), [BASE_URL 3], [])
   \<and> fetch listing_net (BASE_URL 1) = Inr listing_ab
   \<and> parse_stories example_parser listing_ab = Inr [story_a]
   \<and> story_a \<in> set [story_a]
   \<and> (\<exists>es. worker example_parser listing_net [BASE_URL 1, BASE_URL 3] [] =
              (Raised (ExceptionGroup es), [BASE_URL 3], []) \<and> es \<noteq> []
          \<and> (\<forall>e \<in> set es. \<exists>t \<in> set [story_a].
                 fetch listing_net (ITEM_URL (story_id t)) = Inl e))
   \<and> worker example_parser example_net [BASE_URL 1, BASE_URL 2, BASE_URL 3] [] =
       (NoStories, [BASE_URL 3], [enriched_a])
   \<and> is_break NoStories
   \<and> page_raises_nothing example_parser example_net (BASE_URL 1)
   \<and> page_raises_nothing example_parser example_net (BASE_URL 2)
   \<and> worker example_parser listing_net main_queue [] =
       (Raised (ExceptionGroup [ClientError ''timeout'']), tl main_queue, [])
   \<and> main_single example_parser listing_net str_nat =
       ([''Using single thread for fetching stories...''],
        Some (ExceptionGroup [ClientError ''timeout'']))"
proof -
  note on_listing = errors_propagate
    [where html_parser = example_parser and net = listing_net
       and s = story_a and err = "ClientError ''timeout''"
       and page_a = "BASE_URL 2" and err_a = "ClientError ''timeout''"
       and rest_a = "[BASE_URL 3]" and all_a = "[]"
       and page_b = "BASE_URL 1" and html_b = listing_ab and stories_b = "[story_a]"
       and s_b = story_a and err_b = "ClientError ''timeout''"
       and rest_b = "[BASE_URL 3]" and all_b = "[]"
       and err_d = "ExceptionGroup [ClientError ''timeout'']" and queue_d' = "tl main_queue"
       and all_d' = "[]" and rate = str_nat]
  note on_example = errors_propagate
    [where html_parser = example_parser and net = example_net
       and queue_c = "[BASE_URL 1, BASE_URL 2, BASE_URL 3]" and all_c = "[]"
       and ex_c = NoStories and queue_c' = "[BASE_URL 3]" and all_c' = "[enriched_a]"]
  have member: "story_a \<in> set [story_a]"
    by simp
  have break: "is_break NoStories"
    by simp
  have taken: "take (length [BASE_URL 1, BASE_URL 2, BASE_URL 3] - length [BASE_URL 3])
      [BASE_URL 1, BASE_URL 2, BASE_URL 3] = [BASE_URL 1, BASE_URL 2]"
    by simp
  from on_example example_worker_123 break
  have "\<forall>p \<in> set (take (length [BASE_URL 1, BASE_URL 2, BASE_URL 3] - length [BASE_URL 3])
      [BASE_URL 1, BASE_URL 2, BASE_URL 3]). page_raises_nothing example_parser example_net p"
    by blast
  then have pages: "page_raises_nothing example_parser example_net (BASE_URL 1)
      \<and> page_raises_nothing example_parser example_net (BASE_URL 2)"
    by (simp only: taken list.set ball_simps)
  from on_listing listing_page_1 parse_stories_scenario member listing_worker_main
    example_worker_123 break pages
  show ?thesis
    by blast
qed

section \<open>The work queue and the result collection\<close>

text \<open>
  C8: the queue is filled once, with the URLs of the pages 1 to 100, which are distinct,
  before any worker runs. A worker leaves a suffix of the queue it was given, and so does
  any number of steps of the pool: entries are only taken from the front and none is put
  back. Hence an entry that a step has claimed from a queue of distinct entries is in no
  later queue, and no later claim delivers it again.
\<close>

theorem work_queue_only_shrinks:
  "main_queue = map BASE_URL [1..<101] \<and> pool_queue pool_init = main_queue
   \<and> distinct main_queue
   \<and> (\<exists>k. fst (snd (worker html_parser net queue all_stories)) = drop k queue)
   \<and> (pool_steps html_parser net c c' \<longrightarrow> (\<exists>k. pool_queue c' = drop k (pool_queue c)))
   \<and> (distinct (pool_queue c_a) \<and> pool_step html_parser net c_a c_b
        \<and> pool_queue c_a = page # pool_queue c_b \<and> pool_steps html_parser net c_b c_c \<longrightarrow>
        page \<notin> set (pool_queue c_c))"
proof (intro conjI impI)
  show "main_queue = map BASE_URL [1..<101]"
    by (rule main_queue_def)
next
  show "pool_queue pool_init = main_queue"
    by (simp add: pool_init_def)
next
  show "distinct main_queue"
    by (rule distinct_main_queue)
next
  show "\<exists>k. fst (snd (worker html_parser net queue all_stories)) = drop k queue"
    by (rule worker_queue_drop)
next
  assume "pool_steps html_parser net c c'"
  then show "\<exists>k. pool_queue c' = drop k (pool_queue c)"
    by (rule pool_steps_queue_drop)
next
  assume "distinct (pool_queue c_a) \<and> pool_step html_parser net c_a c_b
        \<and> pool_queue c_a = page # pool_queue c_b \<and> pool_steps html_parser net c_b c_c"
  then show "page \<notin> set (pool_queue c_c)"
    using pool_claimed_once [of c_a page c_b html_parser net c_c] by blast
qed

theorem work_queue_only_shrinks_witness:
  "fst (snd (worker example_parser example_net [BASE_URL 1, BASE_URL 2, BASE_URL 3] [])) =
     drop 2 [BASE_URL 1, BASE_URL 2, BASE_URL 3]
   \<and> pool_steps example_parser example_net pool_0 pool_3
   \<and> (\<exists>k. pool_queue pool_3 = drop k (pool_queue pool_0))
   \<and> distinct (pool_queue pool_0)
   \<and> pool_step example_parser example_net pool_0 pool_1
   \<and> pool_queue pool_0 = BASE_URL 1 # pool_queue pool_1
   \<and> pool_steps example_parser example_net pool_1 pool_2
   \<and> BASE_URL 1 \<notin> set (pool_queue pool_2)"
proof -
  note claim = work_queue_only_shrinks
    [where html_parser = example_parser and net = example_net
       and c = pool_0 and c' = pool_3
       and c_a = pool_0 and c_b = pool_1 and c_c = pool_2 and page = "BASE_URL 1"]
  have run: "fst (snd (worker example_parser example_net [BASE_URL 1, BASE_URL 2, BASE_URL 3] [])) =
      drop 2 [BASE_URL 1, BASE_URL 2, BASE_URL 3]"
    by (simp only: example_worker_123) simp
  have queue: "distinct (pool_queue pool_0) \<and> pool_queue pool_0 = BASE_URL 1 # pool_queue pool_1"
    by (simp add: pool_0_def pool_1_def url_simps)
  from claim run queue pool_steps_0_3 pool_step_0_1 pool_steps_1_2
  show ?thesis
    by blast
qed

text \<open>
  C10: the stories a page contributes are what the enrichment tasks of that page returned,
  one for each extracted story and every one with its comments assigned; if a task fails
  the page contributes nothing. So every story a worker appends to the result collection
  has its comments, in a single worker and in every state of the pool.
\<close>

theorem appended_stories_have_comments:
  "(worker_page html_parser net page = Inr stories \<longrightarrow>
      (\<forall>s \<in> set stories. story_comments s \<noteq> None)
      \<and> (\<exists>html extracted. fetch net page = Inr html
            \<and> parse_stories html_parser html = Inr extracted
            \<and> list_all2 (\<lambda>s s'. fetch_story_with_comments html_parser net s = Inr s')
                 extracted stories))
   \<and> (\<exists>new. snd (snd (worker html_parser net queue all_stories)) = all_stories @ new
          \<and> (\<forall>s \<in> set new. story_comments s \<noteq> None))
   \<and> (pool_steps html_parser net c c' \<and> (\<forall>s \<in> set (pool_stories c). story_comments s \<noteq> None)
        \<longrightarrow> (\<forall>s \<in> set (pool_stories c'). story_comments s \<noteq> None))
   \<and> (pool_steps html_parser net pool_init c_a \<longrightarrow>
        (\<forall>s \<in> set (pool_stories c_a). story_comments s \<noteq> None))"
proof (intro conjI impI)
  assume page: "worker_page html_parser net page = Inr stories"
  then show "\<forall>s \<in> set stories. story_comments s \<noteq> None"
    by (rule worker_page_comments)
  from worker_page_Inr [OF page]
  show "\<exists>html extracted. fetch net page = Inr html
            \<and> parse_stories html_parser html = Inr extracted
            \<and> list_all2 (\<lambda>s s'. fetch_story_with_comments html_parser net s = Inr s')
                 extracted stories"
    by blast
next
  show "\<exists>new. snd (snd (worker html_parser net queue all_stories)) = all_stories @ new
          \<and> (\<forall>s \<in> set new. story_comments s \<noteq> None)"
    by (rule worker_stories_append)
next
  assume "pool_steps html_parser net c c'
    \<and> (\<forall>s \<in> set (pool_stories c). story_comments s \<noteq> None)"
  then show "\<forall>s \<in> set (pool_stories c'). story_comments s \<noteq> None"
    using pool_steps_comments [of html_parser net c c'] by blast
next
  assume "pool_steps html_parser net pool_init c_a"
  moreover have "\<forall>s \<in> set (pool_stories pool_init). story_comments s \<noteq> None"
    by (simp add: pool_init_def)
  ultimately show "\<forall>s \<in> set (pool_stories c_a). story_comments s \<noteq> None"
    by (rule pool_steps_comments)
qed

lemma pool_steps_init_5: "pool_steps example_parser example_net pool_init pool_5"
proof -
  have "pool_queue pool_init = BASE_URL 1 # tl main_queue"
    using main_queue_Cons by (simp add: pool_init_def)
  then have "pool_step example_parser example_net pool_init pool_4"
    using pool_step.claim [of 0 pool_init "BASE_URL 1" "tl main_queue" example_parser example_net]
    by (simp add: pool_init_def pool_4_def)
  moreover have "(replicate 8 Claiming)[0 := Claiming] = replicate 8 Claiming"
    by (rule nth_equalityI) (auto simp: nth_list_update)
  then have "pool_step example_parser example_net pool_4 pool_5"
    using pool_step.extend [of 0 pool_4 "BASE_URL 1" example_parser example_net "[enriched_a]"]
      example_page_1
    by (simp add: pool_4_def pool_5_def)
  ultimately show ?thesis
    by (rule pool_steps.step [OF pool_steps.step [OF pool_steps.refl]])
qed

theorem appended_stories_have_comments_witness:
  "worker_page example_parser example_net (BASE_URL 1) = Inr [enriched_a]
   \<and> story_comments enriched_a \<noteq> None
   \<and> story_comments enriched_a = Some item_comments
   \<and> pool_steps example_parser example_net pool_0 pool_3
   \<and> pool_stories pool_0 = []
   \<and> pool_stories pool_3 = [enriched_a]
   \<and> story_comments (hd (pool_stories pool_3)) \<noteq> None
   \<and> pool_steps example_parser example_net pool_init pool_5
   \<and> pool_stories pool_5 = [enriched_a]
   \<and> story_comments (hd (pool_stories pool_5)) \<noteq> None"
proof -
  note claim = appended_stories_have_comments
    [where html_parser = example_parser and net = example_net
       and page = "BASE_URL 1" and stories = "[enriched_a]"
       and c = pool_0 and c' = pool_3 and c_a = pool_5]
  have start: "\<forall>s \<in> set (pool_stories pool_0). story_comments s \<noteq> None"
    by (simp add: pool_0_def)
  have appended: "story_comments enriched_a = Some item_comments
      \<and> pool_stories pool_0 = []
      \<and> pool_stories pool_3 = [enriched_a] \<and> pool_stories pool_5 = [enriched_a]"
    by (simp add: enriched_a_def pool_0_def pool_3_def pool_5_def)
  from claim example_page_1 pool_steps_0_3 start pool_steps_init_5
  have "(\<forall>s \<in> set [enriched_a]. story_comments s \<noteq> None)
      \<and> (\<forall>s \<in> set (pool_stories pool_3). story_comments s \<noteq> None)
      \<and> (\<forall>s \<in> set (pool_stories pool_5). story_comments s \<noteq> None)"
    by blast
  with appended example_page_1 pool_steps_0_3 pool_steps_init_5
  show ?thesis
    by simp
qed

end
